theory Spec2Isabelle
  imports Main "HOL-Library.AList" "HOL-Library.Sublist"
begin

section \<open>Python dictionaries\<close>

text \<open>
  A Python \<^verbatim>\<open>dict\<close> keeps its keys in insertion order. It is modelled as an
  association list with distinct keys; the assignment \<^verbatim>\<open>d[k] = v\<close> is
  \<open>AList.update k v d\<close>: the value is replaced in place when the key is present and the
  pair is appended otherwise. Lookup is \<open>map_of\<close>.
\<close>

type_synonym ('k, 'v) dict = "('k \<times> 'v) list"

text \<open>\<^verbatim>\<open>d.update(kw)\<close> and the display \<^verbatim>\<open>{**d, **kw}\<close>: the items of \<open>kw\<close> are assigned
  into \<open>d\<close> one after the other.\<close>

definition dict_update :: "('k, 'v) dict \<Rightarrow> ('k, 'v) dict \<Rightarrow> ('k, 'v) dict" where
  "dict_update d kw = fold (\<lambda>(k, v). AList.update k v) kw d"

section \<open>The syntax tree of a file\<close>

text \<open>
  The program looks at four classes of \<^verbatim>\<open>ast\<close> nodes: \<^verbatim>\<open>FunctionDef\<close>,
  \<^verbatim>\<open>ClassDef\<close>, \<^verbatim>\<open>Import\<close> and \<^verbatim>\<open>ImportFrom\<close>. All four are statements, and a
  statement occurs only in a block of another statement (expressions hold no
  statements), so the tree is modelled by its statement nodes:
  \<^item> \<open>FunctionDef name body text\<close> and \<open>ClassDef name body text\<close>, where \<open>text\<close> is
    what \<^verbatim>\<open>ast.unparse\<close> returns for the node (the serialiser of the library is not
    modelled; the node carries its result);
  \<^item> \<open>AsyncFunctionDef name body\<close>, which is not an instance of \<^verbatim>\<open>ast.FunctionDef\<close>;
  \<^item> \<open>Import names\<close> with the \<^verbatim>\<open>alias.name\<close> of every alias, and
    \<open>ImportFrom module names\<close> with \<^verbatim>\<open>node.module\<close> (\<open>None\<close> for \<^verbatim>\<open>from . import x\<close>);
  \<^item> \<open>Compound children\<close> for every other node with nested blocks (\<^verbatim>\<open>if\<close>,
    \<^verbatim>\<open>for\<close>, \<^verbatim>\<open>while\<close>, \<^verbatim>\<open>with\<close>, \<^verbatim>\<open>try\<close> and its handlers, \<^verbatim>\<open>match\<close> and its cases),
    the children in the order of the node's fields;
  \<^item> \<open>Simple\<close> for a statement without nested statements.
\<close>

datatype stmt =
    FunctionDef string "stmt list" string
  | AsyncFunctionDef string "stmt list"
  | ClassDef string "stmt list" string
  | Import "string list"
  | ImportFrom "string option" "string list"
  | Compound "stmt list"
  | Simple

datatype module = Module "stmt list"

fun iter_child_nodes :: "stmt \<Rightarrow> stmt list" where
  "iter_child_nodes (FunctionDef name body text) = body"
| "iter_child_nodes (AsyncFunctionDef name body) = body"
| "iter_child_nodes (ClassDef name body text) = body"
| "iter_child_nodes (Compound children) = children"
| "iter_child_nodes (Import names) = []"
| "iter_child_nodes (ImportFrom module names) = []"
| "iter_child_nodes Simple = []"

text \<open>
  \<^verbatim>\<open>ast.walk\<close> is a breadth-first traversal with a queue:
  \<^verbatim>\<open>
  todo = deque([node])
  while todo:
      node = todo.popleft()
      todo.extend(iter_child_nodes(node))
      yield node
  \<close>
\<close>

function walk_queue :: "stmt list \<Rightarrow> stmt list" where
  "walk_queue [] = []"
| "walk_queue (node # todo) = node # walk_queue (todo @ iter_child_nodes node)"
  by pat_completeness auto
termination
proof (relation "measure (size_list size)")
  show "wf (measure (size_list (size :: stmt \<Rightarrow> nat)))" by simp
next
  fix node :: stmt and todo :: "stmt list"
  have "size_list size (iter_child_nodes node) \<le> size node"
    by (cases node) simp_all
  then show "(todo @ iter_child_nodes node, node # todo) \<in> measure (size_list size)"
    by simp
qed

text \<open>The walk of a parsed file starts at the \<^verbatim>\<open>Module\<close> node, which matches none
  of the program's \<^verbatim>\<open>isinstance\<close> tests; \<open>ast_walk\<close> lists the statement nodes that
  follow it.\<close>

fun ast_walk :: "module \<Rightarrow> stmt list" where
  "ast_walk (Module body) = walk_queue body"

text \<open>\<^verbatim>\<open>ast.unparse\<close> on the two classes of node the program serialises.\<close>

fun unparse :: "stmt \<Rightarrow> string" where
  "unparse (FunctionDef name body text) = text"
| "unparse (ClassDef name body text) = text"
| "unparse _ = []"

definition get_function_code :: "stmt \<Rightarrow> string" where
  "get_function_code node = unparse node"

definition get_class_code :: "stmt \<Rightarrow> string" where
  "get_class_code node = unparse node"

section \<open>The file system\<close>

text \<open>
  The text of a file reaches the program only through \<^verbatim>\<open>ast.parse\<close>, so a text is
  represented by what the parser makes of it: \<open>Malformed\<close> (the parser raises
  \<^verbatim>\<open>SyntaxError\<close>) or \<open>Source tree\<close>. A directory entry is a file whose text can be
  read (\<open>File (Some text)\<close>) or not (\<open>File None\<close>), a directory with its entries in
  the order \<^verbatim>\<open>scandir\<close> lists them, or a directory that cannot be listed.
\<close>

datatype content = Malformed | Source module

datatype fs_entry =
    File "content option"
  | Dir "(string \<times> fs_entry) list"
  | NoList

datatype error = OSError | SyntaxError | KeyError

fun read_file :: "fs_entry \<Rightarrow> error + content" where
  "read_file (File (Some t)) = Inr t"
| "read_file _ = Inl OSError"

fun ast_parse :: "content \<Rightarrow> error + module" where
  "ast_parse (Source tree) = Inr tree"
| "ast_parse Malformed = Inl SyntaxError"

fun is_dir :: "fs_entry \<Rightarrow> bool" where
  "is_dir (File t) = False"
| "is_dir _ = True"

text \<open>\<^verbatim>\<open>os.path.join\<close> of POSIX, for two components.\<close>

definition join :: "string \<Rightarrow> string \<Rightarrow> string" where
  "join a b =
     (if b \<noteq> [] \<and> hd b = CHR ''/'' then b
      else if a = [] \<or> last a = CHR ''/'' then a @ b
      else a @ ''/'' @ b)"

text \<open>
  \<^verbatim>\<open>os.walk(top)\<close> with its defaults: a directory that cannot be listed yields
  nothing (the error of \<^verbatim>\<open>scandir\<close> is dropped, \<^verbatim>\<open>onerror\<close> being \<^verbatim>\<open>None\<close>);
  otherwise the triple of the directory comes first and the sub-directories
  follow in order. The entries of \<open>nondirs\<close> keep what they denote, for the
  \<^verbatim>\<open>open\<close> that follows.
\<close>

type_synonym walk_item = "string \<times> string list \<times> (string \<times> fs_entry) list"

fun os_walk :: "string \<Rightarrow> fs_entry \<Rightarrow> walk_item list"
  and walk_dirs :: "string \<Rightarrow> (string \<times> fs_entry) list \<Rightarrow> walk_item list" where
  "os_walk dir (Dir entries) =
     (dir, map fst (filter (\<lambda>e. is_dir (snd e)) entries),
        filter (\<lambda>e. \<not> is_dir (snd e)) entries) # walk_dirs dir entries"
| "os_walk dir (File t) = []"
| "os_walk dir NoList = []"
| "walk_dirs dir [] = []"
| "walk_dirs dir (e # entries) =
     (if is_dir (snd e) then os_walk (join dir (fst e)) (snd e) else [])
       @ walk_dirs dir entries"

text \<open>The directory named on the command line denotes an entry, or nothing.\<close>

fun os_walk_root :: "string \<Rightarrow> fs_entry option \<Rightarrow> walk_item list" where
  "os_walk_root directory None = []"
| "os_walk_root directory (Some e) = os_walk directory e"

section \<open>The graph\<close>

text \<open>
  A \<^verbatim>\<open>networkx.DiGraph\<close>: a dictionary from node to attribute dictionary, and the
  edges, each pair once. \<^verbatim>\<open>add_node\<close> on a node that exists updates its
  attributes; \<^verbatim>\<open>add_edge\<close> creates a missing endpoint without attributes.
\<close>

type_synonym attrs = "(string, string) dict"

record digraph =
  nodes :: "(string, attrs) dict"
  edges :: "(string \<times> string) list"

definition DiGraph :: digraph where
  "DiGraph = \<lparr>nodes = [], edges = []\<rparr>"

definition add_node :: "string \<Rightarrow> attrs \<Rightarrow> digraph \<Rightarrow> digraph" where
  "add_node n kw g =
     (case map_of (nodes g) n of
        None \<Rightarrow> g\<lparr>nodes := AList.update n kw (nodes g)\<rparr>
      | Some a \<Rightarrow> g\<lparr>nodes := AList.update n (dict_update a kw) (nodes g)\<rparr>)"

definition add_edge :: "string \<Rightarrow> string \<Rightarrow> digraph \<Rightarrow> digraph" where
  "add_edge u v g =
     (let g1 = (if map_of (nodes g) u = None then g\<lparr>nodes := AList.update u [] (nodes g)\<rparr> else g);
          g2 = (if map_of (nodes g1) v = None then g1\<lparr>nodes := AList.update v [] (nodes g1)\<rparr> else g1)
      in if (u, v) \<in> set (edges g2) then g2 else g2\<lparr>edges := edges g2 @ [(u, v)]\<rparr>)"

definition out_degree :: "digraph \<Rightarrow> string \<Rightarrow> nat" where
  "out_degree g n = length (filter (\<lambda>e. fst e = n) (edges g))"

definition file_attrs :: attrs where
  "file_attrs = [(''color'', ''blue''), (''type'', ''file'')]"

definition function_attrs :: attrs where
  "function_attrs = [(''color'', ''green''), (''type'', ''function'')]"

definition class_attrs :: attrs where
  "class_attrs = [(''color'', ''red''), (''type'', ''class'')]"

definition module_attrs :: attrs where
  "module_attrs = [(''color'', ''yellow''), (''type'', ''module'')]"

section \<open>parse_imports\<close>

text \<open>The body of the loop over the walk: one entry of \<open>imports\<close> per alias.\<close>

fun import_node :: "stmt \<Rightarrow> (string, string set) dict \<Rightarrow> (string, string set) dict" where
  "import_node (Import names) imports =
     fold (\<lambda>alias. AList.update alias {alias}) names imports"
| "import_node (ImportFrom module names) imports =
     (let m = (case module of None \<Rightarrow> [] | Some s \<Rightarrow> s)
      in fold (\<lambda>alias. AList.update (if m \<noteq> [] then m @ ''.'' @ alias else alias) {alias})
           names imports)"
| "import_node _ imports = imports"

definition parse_imports :: "fs_entry \<Rightarrow> error + (string, string set) dict" where
  "parse_imports file =
     (case read_file file of
        Inl e \<Rightarrow> Inl e
      | Inr t \<Rightarrow>
          (case ast_parse t of
             Inl e \<Rightarrow> Inl e
           | Inr tree \<Rightarrow> Inr (fold import_node (ast_walk tree) [])))"

section \<open>build_import_graph\<close>

record state =
  graph :: digraph
  file_nodes :: "(string, string) dict"
  function_codes :: "(string, string) dict"
  class_codes :: "(string, string) dict"

text \<open>Lines 79 to 83: one item of the body of a class.\<close>

fun visit_item :: "string \<Rightarrow> stmt \<Rightarrow> state \<Rightarrow> state" where
  "visit_item class_name (FunctionDef name body text) st =
     (let method_name = class_name @ ''::'' @ name
      in st\<lparr>graph := add_edge class_name method_name
                        (add_node method_name function_attrs (graph st)),
            function_codes := AList.update method_name
                        (get_function_code (FunctionDef name body text)) (function_codes st)\<rparr>)"
| "visit_item class_name item st = st"

text \<open>Lines 68 to 83: one node of the walk.\<close>

fun visit :: "string \<Rightarrow> stmt \<Rightarrow> state \<Rightarrow> state" where
  "visit file_node (FunctionDef name body text) st =
     (let func_name = file_node @ ''::'' @ name
      in st\<lparr>graph := add_edge file_node func_name
                        (add_node func_name function_attrs (graph st)),
            function_codes := AList.update func_name
                        (get_function_code (FunctionDef name body text)) (function_codes st)\<rparr>)"
| "visit file_node (ClassDef name body text) st =
     (let class_name = file_node @ ''::'' @ name;
          st1 = st\<lparr>graph := add_edge file_node class_name
                        (add_node class_name class_attrs (graph st)),
                     class_codes := AList.update class_name
                        (get_class_code (ClassDef name body text)) (class_codes st)\<rparr>
      in fold (visit_item class_name) body st1)"
| "visit file_node node st = st"

text \<open>Lines 86 to 88: one item of \<open>imports\<close>.\<close>

definition add_import :: "string \<Rightarrow> string \<times> string set \<Rightarrow> state \<Rightarrow> state" where
  "add_import file_node item st =
     (case item of (imported_module, symbols) \<Rightarrow>
        st\<lparr>graph := add_edge file_node imported_module
                       (add_node imported_module module_attrs (graph st))\<rparr>)"

definition endswith :: "string \<Rightarrow> string \<Rightarrow> bool" where
  "endswith s ending = suffix ending s"

text \<open>Lines 58 to 88: one name of \<open>files\<close>. An exception of \<^verbatim>\<open>open\<close>, \<^verbatim>\<open>read\<close> or
  \<^verbatim>\<open>ast.parse\<close> is not caught anywhere, so it ends the whole call.\<close>

definition build_file :: "string \<Rightarrow> string \<times> fs_entry \<Rightarrow> state \<Rightarrow> error + state" where
  "build_file root f st =
     (case f of (file, entry) \<Rightarrow>
        if endswith file ''.py'' then
          (let file_path = join root file;
               file_node = file_path;
               st1 = st\<lparr>graph := add_node file_node file_attrs (graph st),
                          file_nodes := AList.update file_path file_node (file_nodes st)\<rparr>
           in case read_file entry of
                Inl e \<Rightarrow> Inl e
              | Inr t \<Rightarrow>
                  (case ast_parse t of
                     Inl e \<Rightarrow> Inl e
                   | Inr tree \<Rightarrow>
                       (let st2 = fold (visit file_node) (ast_walk tree) st1
                        in case parse_imports entry of
                             Inl e \<Rightarrow> Inl e
                           | Inr imports \<Rightarrow> Inr (fold (add_import file_node) imports st2))))
        else Inr st)"

fun build_files :: "string \<Rightarrow> (string \<times> fs_entry) list \<Rightarrow> state \<Rightarrow> error + state" where
  "build_files root [] st = Inr st"
| "build_files root (f # files) st =
     (case build_file root f st of
        Inl e \<Rightarrow> Inl e
      | Inr st' \<Rightarrow> build_files root files st')"

fun build_walk :: "walk_item list \<Rightarrow> state \<Rightarrow> error + state" where
  "build_walk [] st = Inr st"
| "build_walk ((root, dirs, files) # items) st =
     (case build_files root files st of
        Inl e \<Rightarrow> Inl e
      | Inr st' \<Rightarrow> build_walk items st')"

definition init_state :: state where
  "init_state = \<lparr>graph = DiGraph, file_nodes = [], function_codes = [], class_codes = []\<rparr>"

definition build_import_graph ::
  "string \<Rightarrow> fs_entry option
     \<Rightarrow> error + (digraph \<times> (string, string) dict \<times> (string, string) dict)" where
  "build_import_graph directory root_entry =
     (case build_walk (os_walk_root directory root_entry) init_state of
        Inl e \<Rightarrow> Inl e
      | Inr st \<Rightarrow>
          Inr (graph st, file_nodes st, dict_update (function_codes st) (class_codes st)))"

section \<open>mark_dead_code\<close>

text \<open>
  For a node of the graph, \<^verbatim>\<open>G.out_degree(node)\<close> is its number of successors.
  For a value that is no node of the graph it is a view and not a number, so
  the comparison with \<open>0\<close> fails and nothing is marked.
\<close>

definition mark :: "string \<Rightarrow> digraph \<Rightarrow> digraph" where
  "mark file_node g =
     (case map_of (nodes g) file_node of
        None \<Rightarrow> g
      | Some a \<Rightarrow>
          if out_degree g file_node = 0
          then g\<lparr>nodes := AList.update file_node (AList.update ''color'' ''red'' a) (nodes g)\<rparr>
          else g)"

definition mark_dead_code :: "digraph \<Rightarrow> (string, string) dict \<Rightarrow> digraph" where
  "mark_dead_code g fnodes = fold mark (map snd fnodes) g"

section \<open>create_interactive_graph and the click handler\<close>





text \<open>
  JavaScript's \<^verbatim>\<open>s.split(sep)\<close> for a string separator: the pieces between the
  occurrences of \<open>sep\<close>, found from left to right; one piece per character when
  \<open>sep\<close> is empty.
\<close>

function split_from :: "string \<Rightarrow> string \<Rightarrow> string \<Rightarrow> string list" where
  "split_from sep piece [] = [piece]"
| "split_from sep piece (c # s) =
     (if sep \<noteq> [] \<and> prefix sep (c # s)
      then piece # split_from sep [] (drop (length sep) (c # s))
      else split_from sep (piece @ [c]) s)"
  by pat_completeness auto
termination
  by (relation "measure (\<lambda>(sep, piece, s). length s)") (auto simp: neq_Nil_conv)

definition split :: "string \<Rightarrow> string \<Rightarrow> string list" where
  "split s sep = (if sep = [] then map (\<lambda>c. [c]) s else split_from sep [] s)"





section \<open>main\<close>


section \<open>Vocabulary of the properties\<close>

subsection \<open>The statements of a file\<close>

text \<open>Every statement node of a tree, at any depth: the node itself and, block by
  block, the nodes below it.\<close>

fun descendants :: "stmt \<Rightarrow> stmt list" where
  "descendants (FunctionDef name body text) =
     FunctionDef name body text # concat (map descendants body)"
| "descendants (AsyncFunctionDef name body) =
     AsyncFunctionDef name body # concat (map descendants body)"
| "descendants (ClassDef name body text) =
     ClassDef name body text # concat (map descendants body)"
| "descendants (Compound children) = Compound children # concat (map descendants children)"
| "descendants (Import names) = [Import names]"
| "descendants (ImportFrom module names) = [ImportFrom module names]"
| "descendants Simple = [Simple]"

fun statements :: "module \<Rightarrow> stmt set" where
  "statements (Module body) = (\<Union>s\<in>set body. set (descendants s))"

text \<open>The flat identifiers of one import statement, in the words of the
  specification: \<open>MODULE.NAME\<close> for \<^verbatim>\<open>from MODULE import NAME\<close>, \<open>NAME\<close> alone when
  the module part is empty, and \<open>NAME\<close> for \<^verbatim>\<open>import NAME\<close>.\<close>

fun flat_identifiers :: "stmt \<Rightarrow> string set" where
  "flat_identifiers (Import names) = set names"
| "flat_identifiers (ImportFrom None names) = set names"
| "flat_identifiers (ImportFrom (Some m) names) =
     (if m = [] then set names else (\<lambda>name. m @ ''.'' @ name) ` set names)"
| "flat_identifiers _ = {}"

subsection \<open>The files of a run\<close>

text \<open>The paths that the loops of \<open>build_import_graph\<close> reach, in order, each with
  the entry it denotes; the tree of an entry that can be read and parsed; and
  the exception that the entry raises otherwise.\<close>

definition py_entries :: "walk_item list \<Rightarrow> (string \<times> fs_entry) list" where
  "py_entries items =
     concat (map (\<lambda>(root, dirs, files).
        map (\<lambda>(file, entry). (join root file, entry))
          (filter (\<lambda>(file, entry). endswith file ''.py'') files)) items)"

fun parsed :: "fs_entry \<Rightarrow> module option" where
  "parsed (File (Some (Source tree))) = Some tree"
| "parsed _ = None"

fun entry_error :: "fs_entry \<Rightarrow> error" where
  "entry_error (File (Some Malformed)) = SyntaxError"
| "entry_error _ = OSError"

subsection \<open>The writes of a run\<close>

text \<open>
  Every write of the builder is one of four: the node of a file; a function node
  with its edge and its text; a class node with its edge and its text; a
  module node with its edge. \<open>file_ops\<close> lists the writes for one file in the
  order of the source, and \<open>apply_op\<close> performs one.
\<close>

datatype op =
    FileOp string
  | FuncOp string string string
  | ClassOp string string string
  | ModuleOp string string

fun apply_op :: "op \<Rightarrow> state \<Rightarrow> state" where
  "apply_op (FileOp p) st =
     st\<lparr>graph := add_node p file_attrs (graph st),
        file_nodes := AList.update p p (file_nodes st)\<rparr>"
| "apply_op (FuncOp u v code) st =
     st\<lparr>graph := add_edge u v (add_node v function_attrs (graph st)),
        function_codes := AList.update v code (function_codes st)\<rparr>"
| "apply_op (ClassOp u v code) st =
     st\<lparr>graph := add_edge u v (add_node v class_attrs (graph st)),
        class_codes := AList.update v code (class_codes st)\<rparr>"
| "apply_op (ModuleOp u v) st =
     st\<lparr>graph := add_edge u v (add_node v module_attrs (graph st))\<rparr>"

fun item_ops :: "string \<Rightarrow> stmt \<Rightarrow> op list" where
  "item_ops class_name (FunctionDef name body text) =
     [FuncOp class_name (class_name @ ''::'' @ name) text]"
| "item_ops class_name item = []"

fun visit_ops :: "string \<Rightarrow> stmt \<Rightarrow> op list" where
  "visit_ops file_node (FunctionDef name body text) =
     [FuncOp file_node (file_node @ ''::'' @ name) text]"
| "visit_ops file_node (ClassDef name body text) =
     ClassOp file_node (file_node @ ''::'' @ name) text
       # concat (map (item_ops (file_node @ ''::'' @ name)) body)"
| "visit_ops file_node node = []"

definition imports_of :: "module \<Rightarrow> (string, string set) dict" where
  "imports_of tree = fold import_node (ast_walk tree) []"

definition file_ops :: "string \<Rightarrow> module \<Rightarrow> op list" where
  "file_ops p tree =
     FileOp p # concat (map (visit_ops p) (ast_walk tree))
       @ map (\<lambda>(imported_module, symbols). ModuleOp p imported_module) (imports_of tree)"

definition entry_ops :: "string \<times> fs_entry \<Rightarrow> op list" where
  "entry_ops pe = (case parsed (snd pe) of None \<Rightarrow> [] | Some tree \<Rightarrow> file_ops (fst pe) tree)"

definition all_ops :: "(string \<times> fs_entry) list \<Rightarrow> op list" where
  "all_ops entries = concat (map entry_ops entries)"

fun target :: "op \<Rightarrow> string" where
  "target (FileOp p) = p"
| "target (FuncOp u v code) = v"
| "target (ClassOp u v code) = v"
| "target (ModuleOp u v) = v"

fun kw_of :: "op \<Rightarrow> attrs" where
  "kw_of (FileOp p) = file_attrs"
| "kw_of (FuncOp u v code) = function_attrs"
| "kw_of (ClassOp u v code) = class_attrs"
| "kw_of (ModuleOp u v) = module_attrs"

fun edge_of :: "op \<Rightarrow> (string \<times> string) list" where
  "edge_of (FileOp p) = []"
| "edge_of (FuncOp u v code) = [(u, v)]"
| "edge_of (ClassOp u v code) = [(u, v)]"
| "edge_of (ModuleOp u v) = [(u, v)]"

subsection \<open>Invariants of the graph\<close>

text \<open>Every node of the builder carries both attributes, and every write names
  an edge source that is a node by then; \<open>add_new\<close> is the insertion of an edge
  into the edge list.\<close>

definition attrs_full :: "attrs \<Rightarrow> bool" where
  "attrs_full a = (map fst a = [''color'', ''type''])"

definition nodes_full :: "digraph \<Rightarrow> bool" where
  "nodes_full g = (\<forall>p\<in>set (nodes g). attrs_full (snd p))"

fun closed :: "string set \<Rightarrow> op list \<Rightarrow> bool" where
  "closed K [] = True"
| "closed K (x # ops) =
     ((\<forall>e\<in>set (edge_of x). fst e \<in> insert (target x) K) \<and> closed (insert (target x) K) ops)"

definition add_new :: "'a \<Rightarrow> 'a list \<Rightarrow> 'a list" where
  "add_new x xs = (if x \<in> set xs then xs else xs @ [x])"

subsection \<open>Reading the graph\<close>

text \<open>\<^verbatim>\<open>G.nodes[n]['color']\<close>, where the node and the attribute exist.\<close>

definition color_of :: "digraph \<Rightarrow> string \<Rightarrow> string option" where
  "color_of g n = (case map_of (nodes g) n of None \<Rightarrow> None | Some a \<Rightarrow> map_of a ''color'')"

subsection \<open>A directory to run on\<close>

text \<open>The scenario of the specification (\<^verbatim>\<open>a.py\<close> with \<^verbatim>\<open>def foo(): pass\<close> and
  \<^verbatim>\<open>import os\<close>, \<^verbatim>\<open>b.py\<close> with \<^verbatim>\<open>from a import foo\<close>) with a third file that holds
  no declaration and no import, and the graph that the builder returns for it.\<close>

definition scenario :: "fs_entry option" where
  "scenario = Some (Dir
     [(''a.py'', File (Some (Source (Module
         [FunctionDef ''foo'' [Simple] ''def foo(): pass'', Import [''os'']])))),
      (''b.py'', File (Some (Source (Module [ImportFrom (Some ''a'') [''foo'']])))),
      (''c.py'', File (Some (Source (Module [Simple]))))])"

definition scenario_graph :: digraph where
  "scenario_graph =
     \<lparr>nodes = [(''d/a.py'', file_attrs), (''d/a.py::foo'', function_attrs), (''os'', module_attrs),
               (''d/b.py'', file_attrs), (''a.foo'', module_attrs), (''d/c.py'', file_attrs)],
      edges = [(''d/a.py'', ''d/a.py::foo''), (''d/a.py'', ''os''), (''d/b.py'', ''a.foo'')]\<rparr>"

definition scenario_files :: "(string, string) dict" where
  "scenario_files = [(''d/a.py'', ''d/a.py''), (''d/b.py'', ''d/b.py''), (''d/c.py'', ''d/c.py'')]"

subsection \<open>The parts of a write, and the first exception of a run\<close>

fun func_write :: "op \<Rightarrow> (string \<times> string) list" where
  "func_write (FuncOp u v code) = [(v, code)]"
| "func_write x = []"

fun class_write :: "op \<Rightarrow> (string \<times> string) list" where
  "class_write (ClassOp u v code) = [(v, code)]"
| "class_write x = []"

fun file_write :: "op \<Rightarrow> (string \<times> string) list" where
  "file_write (FileOp p) = [(p, p)]"
| "file_write x = []"

definition node_write :: "op \<Rightarrow> string \<times> attrs" where
  "node_write x = (target x, kw_of x)"

fun first_error :: "(string \<times> fs_entry) list \<Rightarrow> error option" where
  "first_error [] = None"
| "first_error (pe # es) =
     (case parsed (snd pe) of None \<Rightarrow> Some (entry_error (snd pe)) | Some tree \<Rightarrow> first_error es)"

definition run_entries :: "(string \<times> fs_entry) list \<Rightarrow> state \<Rightarrow> error + state" where
  "run_entries es st =
     (case first_error es of
        Some err \<Rightarrow> Inl err
      | None \<Rightarrow> Inr (fold apply_op (all_ops es) st))"

text \<open>A file with \<^verbatim>\<open>import os\<close>, a function that holds \<^verbatim>\<open>from a import b\<close> and
  \<^verbatim>\<open>from . import x\<close>, and \<^verbatim>\<open>import p.q\<close> with \<^verbatim>\<open>from p import q\<close> under an \<^verbatim>\<open>if\<close>.\<close>

definition imports_example :: module where
  "imports_example = Module
     [Import [''os''],
      FunctionDef ''f'' [ImportFrom (Some ''a'') [''b''], ImportFrom None [''x'']] ''def f(): ...'',
      Compound [Import [''p.q''], ImportFrom (Some ''p'') [''q'']]]"

text \<open>Two files that import the same flat identifier: \<^verbatim>\<open>a.py\<close> with \<^verbatim>\<open>import p.q\<close> and
  \<^verbatim>\<open>from p import q\<close>, \<^verbatim>\<open>b.py\<close> with \<^verbatim>\<open>import p.q\<close>; and the result of the builder.\<close>

definition shared_imports :: "fs_entry option" where
  "shared_imports = Some (Dir
     [(''a.py'', File (Some (Source (Module [Import [''p.q''], ImportFrom (Some ''p'') [''q'']])))),
      (''b.py'', File (Some (Source (Module [Import [''p.q'']]))))])"

definition shared_graph :: digraph where
  "shared_graph =
     \<lparr>nodes = [(''d/a.py'', file_attrs), (''p.q'', module_attrs), (''d/b.py'', file_attrs)],
      edges = [(''d/a.py'', ''p.q''), (''d/b.py'', ''p.q'')]\<rparr>"



text \<open>A file with one class \<^verbatim>\<open>C\<close> that has one method \<^verbatim>\<open>m\<close>, and a file with two
  classes that both have a method \<^verbatim>\<open>m\<close>, each with the result of the builder.\<close>

definition one_method :: "fs_entry option" where
  "one_method = Some (Dir
     [(''a.py'', File (Some (Source (Module
         [ClassDef ''C'' [FunctionDef ''m'' [Simple] ''def m(): 1''] ''class C'']))))])"

definition one_method_graph :: digraph where
  "one_method_graph =
     \<lparr>nodes = [(''d/a.py'', file_attrs), (''d/a.py::C'', class_attrs),
               (''d/a.py::C::m'', function_attrs), (''d/a.py::m'', function_attrs)],
      edges = [(''d/a.py'', ''d/a.py::C''), (''d/a.py::C'', ''d/a.py::C::m''),
               (''d/a.py'', ''d/a.py::m'')]\<rparr>"

definition one_method_codes :: "(string, string) dict" where
  "one_method_codes =
     [(''d/a.py::C::m'', ''def m(): 1''), (''d/a.py::m'', ''def m(): 1''), (''d/a.py::C'', ''class C'')]"




subsection \<open>Names\<close>

text \<open>The names of Python hold no colon: the name of a function or class is an
  identifier, the name of a module a dotted sequence of identifiers. The type
  \<open>string\<close> of the model is wider, so the properties that separate identities say
  so.\<close>

fun stmt_plain :: "stmt \<Rightarrow> bool" where
  "stmt_plain (FunctionDef name body text) = (CHR '':'' \<notin> set name)"
| "stmt_plain (ClassDef name body text) = (CHR '':'' \<notin> set name)"
| "stmt_plain (Import names) = (\<forall>name\<in>set names. CHR '':'' \<notin> set name)"
| "stmt_plain (ImportFrom module names) =
     ((case module of None \<Rightarrow> True | Some m \<Rightarrow> CHR '':'' \<notin> set m)
      \<and> (\<forall>name\<in>set names. CHR '':'' \<notin> set name))"
| "stmt_plain s = True"

definition names_plain :: "(string \<times> fs_entry) list \<Rightarrow> bool" where
  "names_plain es =
     (\<forall>pe\<in>set es. \<forall>tree. parsed (snd pe) = Some tree \<longrightarrow> (\<forall>s\<in>statements tree. stmt_plain s))"

subsection \<open>Substrings\<close>






subsection \<open>Files that do not collide\<close>

text \<open>Two different files of a run are compatible when every identity that both
  write is written with the same attributes by both (as the Module node of an
  identifier that both import is).\<close>

definition compatible :: "(string \<times> fs_entry) list \<Rightarrow> bool" where
  "compatible es =
     (\<forall>pe\<in>set es. \<forall>pe'\<in>set es. pe \<noteq> pe' \<longrightarrow>
        (\<forall>x\<in>set (entry_ops pe). \<forall>y\<in>set (entry_ops pe'). target x = target y \<longrightarrow> kw_of x = kw_of y))"

subsection \<open>Names as Python writes them\<close>

text \<open>The name of a function or of a class is an identifier, so it contains neither
  a dot nor a colon; the name of an imported module is a dotted name, with no
  slash.\<close>

fun stmt_identifier :: "stmt \<Rightarrow> bool" where
  "stmt_identifier (FunctionDef name body text) =
     (CHR ''.'' \<notin> set name \<and> CHR '':'' \<notin> set name)"
| "stmt_identifier (ClassDef name body text) =
     (CHR ''.'' \<notin> set name \<and> CHR '':'' \<notin> set name)"
| "stmt_identifier (Import names) = (\<forall>name\<in>set names. CHR ''/'' \<notin> set name)"
| "stmt_identifier (ImportFrom module names) =
     ((case module of None \<Rightarrow> True | Some m \<Rightarrow> CHR ''/'' \<notin> set m)
      \<and> (\<forall>name\<in>set names. CHR ''/'' \<notin> set name))"
| "stmt_identifier s = True"

definition identifiers :: "(string \<times> fs_entry) list \<Rightarrow> bool" where
  "identifiers es =
     (\<forall>pe\<in>set es. case parsed (snd pe) of None \<Rightarrow> True
                   | Some tree \<Rightarrow> (\<forall>s\<in>statements tree. stmt_identifier s))"

text \<open>The directory of the scenario, listed in the opposite order.\<close>

definition scenario_reordered :: "fs_entry option" where
  "scenario_reordered = Some (Dir
     [(''c.py'', File (Some (Source (Module [Simple])))),
      (''b.py'', File (Some (Source (Module [ImportFrom (Some ''a'') [''foo'']])))),
      (''a.py'', File (Some (Source (Module
         [FunctionDef ''foo'' [Simple] ''def foo(): pass'', Import [''os'']]))))])"

section \<open>Dictionaries and graph operations\<close>

lemma map_of_fold_update:
  "map_of (fold (\<lambda>(k, v). AList.update k v) kvs d) = map_of d ++ map_of (rev kvs)"
proof (induction kvs arbitrary: d)
  case Nil
  then show ?case by simp
next
  case (Cons kv kvs)
  obtain k v where kv: "kv = (k, v)" by (cases kv)
  show ?case
    by (rule ext) (simp add: Cons.IH kv update_conv' map_add_def split: option.splits)
qed

lemma keys_fold_update:
  "fst ` set (fold (\<lambda>(k, v). AList.update k v) kvs d) = fst ` set d \<union> fst ` set kvs"
proof (induction kvs arbitrary: d)
  case Nil
  then show ?case by simp
next
  case (Cons kv kvs)
  obtain k v where kv: "kv = (k, v)" by (cases kv)
  have "fst ` set (AList.update k v d) = insert k (fst ` set d)"
    by (simp add: dom_update)
  then show ?case
    by (simp add: Cons.IH kv)
qed

lemma distinct_fold_update:
  "distinct (map fst d) \<Longrightarrow> distinct (map fst (fold (\<lambda>(k, v). AList.update k v) kvs d))"
proof (induction kvs arbitrary: d)
  case Nil
  then show ?case by simp
next
  case (Cons kv kvs)
  obtain k v where kv: "kv = (k, v)" by (cases kv)
  from Cons.prems have "distinct (map fst (AList.update k v d))"
    by (simp add: distinct_update)
  then show ?case
    by (simp add: Cons.IH kv)
qed

lemma attrs_fullE:
  assumes "attrs_full a"
  obtains c t where "a = [(''color'', c), (''type'', t)]"
proof -
  from assms obtain x y where "a = [x, y]" "fst x = ''color''" "fst y = ''type''"
    by (auto simp: attrs_full_def map_eq_Cons_conv)
  then have "a = [(''color'', snd x), (''type'', snd y)]"
    by (metis prod.collapse)
  then show thesis by (rule that)
qed

lemma dict_update_full:
  assumes "attrs_full a" and "attrs_full kw"
  shows "dict_update a kw = kw"
proof -
  from assms(1) obtain c t where a: "a = [(''color'', c), (''type'', t)]" by (rule attrs_fullE)
  from assms(2) obtain c' t' where kw: "kw = [(''color'', c'), (''type'', t')]" by (rule attrs_fullE)
  show ?thesis by (simp add: a kw dict_update_def)
qed

lemma attrs_full_consts [simp]:
  "attrs_full file_attrs" "attrs_full function_attrs" "attrs_full class_attrs" "attrs_full module_attrs"
  by (simp_all add: attrs_full_def file_attrs_def function_attrs_def class_attrs_def module_attrs_def)

lemma attrs_full_kw_of [simp]: "attrs_full (kw_of x)"
  by (cases x) simp_all

lemma nodes_add_node:
  assumes "nodes_full g" and "attrs_full kw"
  shows "nodes (add_node v kw g) = AList.update v kw (nodes g)"
proof (cases "map_of (nodes g) v")
  case None
  then show ?thesis by (simp add: add_node_def)
next
  case (Some a)
  then have "(v, a) \<in> set (nodes g)" by (rule map_of_SomeD)
  with assms(1) have "attrs_full a" unfolding nodes_full_def by force
  with Some assms(2) show ?thesis by (simp add: add_node_def dict_update_full)
qed

lemma edges_add_node [simp]: "edges (add_node v kw g) = edges g"
  by (simp add: add_node_def split: option.splits)

lemma map_of_None_iff_keys: "map_of xs k = None \<longleftrightarrow> k \<notin> fst ` set xs"
  by (simp add: map_of_eq_None_iff)

lemma add_edge_present:
  assumes "u \<in> fst ` set (nodes g)" and "v \<in> fst ` set (nodes g)"
  shows "add_edge u v g = g\<lparr>edges := add_new (u, v) (edges g)\<rparr>"
  using assms by (simp add: add_edge_def add_new_def map_of_eq_None_iff)

lemma set_update_subset: "set (AList.update k v al) \<subseteq> insert (k, v) (set al)"
  by (induction al) auto

lemma nodes_full_update:
  "nodes_full g \<Longrightarrow> attrs_full kw \<Longrightarrow> nodes_full (g\<lparr>nodes := AList.update v kw (nodes g)\<rparr>)"
  unfolding nodes_full_def using set_update_subset [of v kw "nodes g"] by auto

lemma scenario_build:
  "build_import_graph ''d'' scenario =
     Inr (scenario_graph, scenario_files, [(''d/a.py::foo'', ''def foo(): pass'')])"
  by code_simp

section \<open>mark_dead_code\<close>

lemma edges_mark [simp]: "edges (mark m g) = edges g"
  by (simp add: mark_def split: option.splits)

lemma out_degree_mark [simp]: "out_degree (mark m g) n = out_degree g n"
  by (simp add: out_degree_def)

lemma map_of_nodes_mark:
  "map_of (nodes (mark m g)) n =
     (if n = m \<and> out_degree g m = 0
      then map_option (AList.update ''color'' ''red'') (map_of (nodes g) n)
      else map_of (nodes g) n)"
  by (simp add: mark_def update_conv' split: option.splits)

lemma edges_fold_mark [simp]: "edges (fold mark ms g) = edges g"
  by (induction ms arbitrary: g) simp_all

lemma out_degree_fold_mark [simp]: "out_degree (fold mark ms g) n = out_degree g n"
  by (simp add: out_degree_def)

lemma map_of_nodes_fold_mark:
  "map_of (nodes (fold mark ms g)) n =
     (if n \<in> set ms \<and> out_degree g n = 0
      then map_option (AList.update ''color'' ''red'') (map_of (nodes g) n)
      else map_of (nodes g) n)"
proof (induction ms arbitrary: g)
  case Nil
  then show ?case by simp
next
  case (Cons m ms)
  show ?case
    by (cases "map_of (nodes g) n") (auto simp: Cons.IH map_of_nodes_mark)
qed

text \<open>
  Claim C5. A File node (a value of \<open>file_nodes\<close> that carries the attributes of a
  file) is red after \<open>mark_dead_code\<close> if and only if it has no outgoing edge:
  with out-degree \<open>0\<close> its colour is set to red, its type is kept, and with an
  outgoing edge, of either kind, its attributes stay as they were. No edge
  changes.
\<close>

theorem mark_dead_code_file_node:
  assumes "n \<in> snd ` set fnodes" and "map_of (nodes g) n = Some file_attrs"
  shows "(color_of (mark_dead_code g fnodes) n = Some ''red'' \<longleftrightarrow> out_degree g n = 0)
       \<and> (out_degree g n \<noteq> 0 \<longrightarrow> map_of (nodes (mark_dead_code g fnodes)) n = Some file_attrs)
       \<and> (out_degree g n = 0 \<longrightarrow>
            map_of (nodes (mark_dead_code g fnodes)) n = Some [(''color'', ''red''), (''type'', ''file'')])
       \<and> edges (mark_dead_code g fnodes) = edges g"
  using assms
  by (simp add: mark_dead_code_def color_of_def map_of_nodes_fold_mark file_attrs_def)

theorem mark_dead_code_file_node_witness:
  "''d/c.py'' \<in> snd ` set scenario_files
   \<and> map_of (nodes scenario_graph) ''d/c.py'' = Some file_attrs
   \<and> out_degree scenario_graph ''d/c.py'' = 0
   \<and> color_of (mark_dead_code scenario_graph scenario_files) ''d/c.py'' = Some ''red''
   \<and> ''d/a.py'' \<in> snd ` set scenario_files
   \<and> map_of (nodes scenario_graph) ''d/a.py'' = Some file_attrs
   \<and> out_degree scenario_graph ''d/a.py'' = 2
   \<and> color_of (mark_dead_code scenario_graph scenario_files) ''d/a.py'' = Some ''blue''"
proof -
  have c1: "''d/c.py'' \<in> snd ` set scenario_files"
    by (simp add: scenario_files_def)
  have c2: "map_of (nodes scenario_graph) ''d/c.py'' = Some file_attrs"
    by (simp add: scenario_graph_def)
  have c3: "out_degree scenario_graph ''d/c.py'' = 0"
    by (simp add: scenario_graph_def out_degree_def)
  have a1: "''d/a.py'' \<in> snd ` set scenario_files"
    by (simp add: scenario_files_def)
  have a2: "map_of (nodes scenario_graph) ''d/a.py'' = Some file_attrs"
    by (simp add: scenario_graph_def)
  have a3: "out_degree scenario_graph ''d/a.py'' = 2"
    by (simp add: scenario_graph_def out_degree_def)
  from mark_dead_code_file_node [OF c1 c2] c3
  have c4: "color_of (mark_dead_code scenario_graph scenario_files) ''d/c.py'' = Some ''red''"
    by simp
  from mark_dead_code_file_node [OF a1 a2] a3
  have "map_of (nodes (mark_dead_code scenario_graph scenario_files)) ''d/a.py'' = Some file_attrs"
    by simp
  then have a4: "color_of (mark_dead_code scenario_graph scenario_files) ''d/a.py'' = Some ''blue''"
    by (simp add: color_of_def file_attrs_def)
  from c1 c2 c3 c4 a1 a2 a3 a4 show ?thesis by blast
qed

section \<open>One write\<close>

lemma keys_update: "fst ` set (AList.update k v al) = insert k (fst ` set al)"
  by (simp add: dom_update)

lemma apply_op_graph:
  assumes full: "nodes_full (graph st)"
    and src: "\<forall>e\<in>set (edge_of x). fst e \<in> insert (target x) (fst ` set (nodes (graph st)))"
  shows "nodes (graph (apply_op x st)) = AList.update (target x) (kw_of x) (nodes (graph st))"
    and "edges (graph (apply_op x st)) = fold add_new (edge_of x) (edges (graph st))"
proof -
  have step: "nodes (add_edge u v (add_node v kw (graph st))) = AList.update v kw (nodes (graph st))
      \<and> edges (add_edge u v (add_node v kw (graph st))) = add_new (u, v) (edges (graph st))"
    if kw: "attrs_full kw" and u: "u \<in> insert v (fst ` set (nodes (graph st)))" for u v kw
  proof -
    have n: "nodes (add_node v kw (graph st)) = AList.update v kw (nodes (graph st))"
      using full kw by (rule nodes_add_node)
    then have keys: "fst ` set (nodes (add_node v kw (graph st))) = insert v (fst ` set (nodes (graph st)))"
      by (simp add: keys_update)
    have "add_edge u v (add_node v kw (graph st))
        = (add_node v kw (graph st))\<lparr>edges := add_new (u, v) (edges (add_node v kw (graph st)))\<rparr>"
      by (rule add_edge_present) (use keys u in auto)
    with n show ?thesis by simp
  qed
  show "nodes (graph (apply_op x st)) = AList.update (target x) (kw_of x) (nodes (graph st))"
    using src full by (cases x) (simp_all add: step nodes_add_node)
  show "edges (graph (apply_op x st)) = fold add_new (edge_of x) (edges (graph st))"
    using src by (cases x) (simp_all add: step)
qed

lemma apply_op_function_codes:
  "function_codes (apply_op x st) = fold (\<lambda>(k, v). AList.update k v) (func_write x) (function_codes st)"
  by (cases x) simp_all

lemma apply_op_class_codes:
  "class_codes (apply_op x st) = fold (\<lambda>(k, v). AList.update k v) (class_write x) (class_codes st)"
  by (cases x) simp_all

lemma apply_op_file_nodes:
  "file_nodes (apply_op x st) = fold (\<lambda>(k, v). AList.update k v) (file_write x) (file_nodes st)"
  by (cases x) simp_all

section \<open>A list of writes\<close>

lemma closed_mono: "closed K ops \<Longrightarrow> K \<subseteq> K' \<Longrightarrow> closed K' ops"
proof (induction ops arbitrary: K K')
  case Nil
  then show ?case by simp
next
  case (Cons x ops)
  from Cons.prems have "closed (insert (target x) K') ops"
    by (auto intro: Cons.IH [of "insert (target x) K"])
  with Cons.prems show ?case by auto
qed

lemma closed_append:
  "closed K (xs @ ys) \<longleftrightarrow> closed K xs \<and> closed (K \<union> target ` set xs) ys"
  by (induction xs arbitrary: K) (simp_all add: insert_commute Un_insert_left [symmetric] del: Un_insert_left)

lemma closed_concat: "(\<And>xs. xs \<in> set xss \<Longrightarrow> closed K xs) \<Longrightarrow> closed K (concat xss)"
proof (induction xss)
  case Nil
  then show ?case by simp
next
  case (Cons xs xss)
  have "closed K (concat xss)" by (rule Cons.IH) (simp add: Cons.prems)
  then have "closed (K \<union> target ` set xs) (concat xss)" by (rule closed_mono) simp
  with Cons.prems [of xs] show ?case by (simp add: closed_append)
qed

lemma fold_apply_op_graph:
  assumes "nodes_full (graph st)" and "closed (fst ` set (nodes (graph st))) ops"
  shows "nodes (graph (fold apply_op ops st))
           = fold (\<lambda>(k, v). AList.update k v) (map node_write ops) (nodes (graph st))
       \<and> edges (graph (fold apply_op ops st))
           = fold add_new (concat (map edge_of ops)) (edges (graph st))
       \<and> nodes_full (graph (fold apply_op ops st))"
  using assms
proof (induction ops arbitrary: st)
  case Nil
  then show ?case by simp
next
  case (Cons x ops)
  from Cons.prems have src: "\<forall>e\<in>set (edge_of x). fst e \<in> insert (target x) (fst ` set (nodes (graph st)))"
    by simp
  note n = apply_op_graph(1) [OF Cons.prems(1) src]
  note e = apply_op_graph(2) [OF Cons.prems(1) src]
  have full: "nodes_full (graph (apply_op x st))"
    using nodes_full_update [OF Cons.prems(1) attrs_full_kw_of, of "target x" x]
    by (simp add: nodes_full_def n)
  have cl: "closed (fst ` set (nodes (graph (apply_op x st)))) ops"
    using Cons.prems(2) by (simp add: n keys_update)
  from Cons.IH [OF full cl] show ?case
    by (simp add: n e node_write_def)
qed

lemma fold_apply_op_codes:
  "function_codes (fold apply_op ops st)
     = fold (\<lambda>(k, v). AList.update k v) (concat (map func_write ops)) (function_codes st)
   \<and> class_codes (fold apply_op ops st)
     = fold (\<lambda>(k, v). AList.update k v) (concat (map class_write ops)) (class_codes st)
   \<and> file_nodes (fold apply_op ops st)
     = fold (\<lambda>(k, v). AList.update k v) (concat (map file_write ops)) (file_nodes st)"
  by (induction ops arbitrary: st)
     (simp_all add: apply_op_function_codes apply_op_class_codes apply_op_file_nodes)

lemma set_fold_add_new: "set (fold add_new xs ys) = set ys \<union> set xs"
  by (induction xs arbitrary: ys) (auto simp: add_new_def)

lemma distinct_fold_add_new: "distinct ys \<Longrightarrow> distinct (fold add_new xs ys)"
  by (induction xs arbitrary: ys) (auto simp: add_new_def)

section \<open>The builder as a list of writes\<close>

lemma visit_item_ops: "visit_item cn item st = fold apply_op (item_ops cn item) st"
  by (cases item) (simp_all add: get_function_code_def Let_def)

lemma fold_visit_item_ops:
  "fold (visit_item cn) body st = fold apply_op (concat (map (item_ops cn) body)) st"
  by (induction body arbitrary: st) (simp_all add: visit_item_ops)

lemma visit_ops: "visit f node st = fold apply_op (visit_ops f node) st"
  by (cases node) (simp_all add: get_function_code_def get_class_code_def fold_visit_item_ops Let_def)

lemma fold_visit_ops:
  "fold (visit f) ns st = fold apply_op (concat (map (visit_ops f) ns)) st"
  by (induction ns arbitrary: st) (simp_all add: visit_ops)

lemma fold_add_import_ops:
  "fold (add_import f) ims st
     = fold apply_op (map (\<lambda>(imported_module, symbols). ModuleOp f imported_module) ims) st"
  by (induction ims arbitrary: st) (simp_all add: add_import_def split: prod.splits)

lemma parse_imports_parsed:
  "parse_imports e = (case parsed e of None \<Rightarrow> Inl (entry_error e) | Some tree \<Rightarrow> Inr (imports_of tree))"
  by (cases e rule: parsed.cases) (simp_all add: parse_imports_def imports_of_def)

lemma build_file_ops:
  "build_file root (file, e) st =
     (if endswith file ''.py''
      then (case parsed e of
              None \<Rightarrow> Inl (entry_error e)
            | Some tree \<Rightarrow> Inr (fold apply_op (file_ops (join root file) tree) st))
      else Inr st)"
  by (cases e rule: parsed.cases)
     (simp_all add: build_file_def parse_imports_def imports_of_def file_ops_def Let_def
        fold_visit_ops fold_add_import_ops)

lemma first_error_append:
  "first_error (xs @ ys) = (case first_error xs of None \<Rightarrow> first_error ys | Some err \<Rightarrow> Some err)"
  by (induction xs) (simp_all split: option.splits)

lemma all_ops_append: "all_ops (xs @ ys) = all_ops xs @ all_ops ys"
  by (simp add: all_ops_def)

lemma all_ops_Cons: "all_ops (pe # es) = entry_ops pe @ all_ops es"
  by (simp add: all_ops_def)

lemma first_error_None: "first_error es = None \<longleftrightarrow> (\<forall>pe\<in>set es. parsed (snd pe) \<noteq> None)"
  by (induction es) (auto split: option.splits)

lemma run_entries_Nil [simp]: "run_entries [] st = Inr st"
  by (simp add: run_entries_def all_ops_def)

lemma run_entries_Cons [simp]:
  "run_entries ((p, e) # es) st =
     (case parsed e of
        None \<Rightarrow> Inl (entry_error e)
      | Some tree \<Rightarrow> run_entries es (fold apply_op (file_ops p tree) st))"
  by (simp add: run_entries_def all_ops_Cons entry_ops_def split: option.splits)

lemma run_entries_append:
  "run_entries (xs @ ys) st =
     (case run_entries xs st of Inl err \<Rightarrow> Inl err | Inr st' \<Rightarrow> run_entries ys st')"
  by (induction xs arbitrary: st) (auto split: option.splits)

lemma build_files_entries:
  "build_files root files st =
     run_entries (map (\<lambda>(file, entry). (join root file, entry))
                   (filter (\<lambda>(file, entry). endswith file ''.py'') files)) st"
proof (induction files arbitrary: st)
  case Nil
  then show ?case by simp
next
  case (Cons f files)
  obtain fname e where f: "f = (fname, e)" by (cases f)
  show ?case
    by (simp add: f build_file_ops Cons.IH split: option.splits)
qed

lemma py_entries_Cons:
  "py_entries ((root, dirs, files) # items)
     = map (\<lambda>(file, entry). (join root file, entry))
         (filter (\<lambda>(file, entry). endswith file ''.py'') files) @ py_entries items"
  by (simp add: py_entries_def)

lemma build_walk_entries: "build_walk items st = run_entries (py_entries items) st"
proof (induction items arbitrary: st)
  case Nil
  then show ?case by (simp add: py_entries_def)
next
  case (Cons item items)
  obtain root dirs files where item: "item = (root, dirs, files)" by (cases item)
  show ?case
    by (simp add: item py_entries_Cons run_entries_append build_files_entries Cons.IH split: sum.splits)
qed

section \<open>The result of the builder\<close>

lemma closed_all:
  "(\<And>x e. x \<in> set ops \<Longrightarrow> e \<in> set (edge_of x) \<Longrightarrow> fst e \<in> K) \<Longrightarrow> closed K ops"
proof (induction ops arbitrary: K)
  case Nil
  then show ?case by simp
next
  case (Cons x ops)
  have "closed (insert (target x) K) ops"
    by (rule Cons.IH) (use Cons.prems in auto)
  with Cons.prems [of x] show ?case by simp
qed

lemma closed_item_ops: "cn \<in> K \<Longrightarrow> closed K (item_ops cn item)"
  by (cases item) simp_all

lemma closed_visit_ops: "f \<in> K \<Longrightarrow> closed K (visit_ops f node)"
proof (cases node)
  case (ClassDef cname cbody ctext)
  assume "f \<in> K"
  moreover have "closed (insert (f @ ''::'' @ cname) K)
      (concat (map (item_ops (f @ ''::'' @ cname)) cbody))"
    by (rule closed_concat) (auto simp: closed_item_ops)
  ultimately show ?thesis by (simp add: ClassDef)
qed simp_all

lemma closed_file_ops: "closed K (file_ops p tree)"
proof -
  have a: "closed (insert p K) (concat (map (visit_ops p) (ast_walk tree)))"
    by (rule closed_concat) (auto simp: closed_visit_ops)
  have "closed (insert p K)
          (map (\<lambda>(imported_module, symbols). ModuleOp p imported_module) (imports_of tree))"
    by (rule closed_all) auto
  then have b: "closed (insert p K \<union> target ` set (concat (map (visit_ops p) (ast_walk tree))))
          (map (\<lambda>(imported_module, symbols). ModuleOp p imported_module) (imports_of tree))"
    by (rule closed_mono) blast
  from a b show ?thesis
    by (simp add: file_ops_def closed_append)
qed

lemma closed_all_ops: "closed K (all_ops es)"
  unfolding all_ops_def
  by (rule closed_concat) (auto simp: entry_ops_def closed_file_ops split: option.splits)

lemma map_of_rev_distinct: "distinct (map fst xs) \<Longrightarrow> map_of (rev xs) = map_of xs"
  by (subst map_of_inject_set) (simp_all add: rev_map [symmetric])

lemma map_of_dict_update:
  "distinct (map fst kw) \<Longrightarrow> map_of (dict_update d kw) = map_of d ++ map_of kw"
  by (simp add: dict_update_def map_of_fold_update map_of_rev_distinct)

lemma nodes_full_init [simp]: "nodes_full (graph init_state)"
  by (simp add: nodes_full_def init_state_def DiGraph_def)

lemma build_import_graph_run:
  "build_import_graph directory root_entry =
     (case first_error (py_entries (os_walk_root directory root_entry)) of
        Some err \<Rightarrow> Inl err
      | None \<Rightarrow>
          (let st = fold apply_op (all_ops (py_entries (os_walk_root directory root_entry))) init_state
           in Inr (graph st, file_nodes st, dict_update (function_codes st) (class_codes st))))"
  by (simp add: build_import_graph_def build_walk_entries run_entries_def Let_def split: option.splits)

text \<open>What a successful run returns, in terms of its writes.\<close>

lemma build_import_graph_Inr:
  assumes "build_import_graph directory root_entry = Inr (g, fnodes, codes)"
  defines "ops \<equiv> all_ops (py_entries (os_walk_root directory root_entry))"
  shows "first_error (py_entries (os_walk_root directory root_entry)) = None"
    and "nodes g = fold (\<lambda>(k, v). AList.update k v) (map node_write ops) []"
    and "edges g = fold add_new (concat (map edge_of ops)) []"
    and "nodes_full g"
    and "fnodes = fold (\<lambda>(k, v). AList.update k v) (concat (map file_write ops)) []"
    and "map_of codes = map_of (rev (concat (map func_write ops)))
                          ++ map_of (rev (concat (map class_write ops)))"
proof -
  from assms(1) show ok: "first_error (py_entries (os_walk_root directory root_entry)) = None"
    by (simp add: build_import_graph_run split: option.splits)
  define st where "st = fold apply_op ops init_state"
  from assms(1) ok have g: "g = graph st" and f: "fnodes = file_nodes st"
    and c: "codes = dict_update (function_codes st) (class_codes st)"
    by (simp_all add: build_import_graph_run st_def ops_def Let_def)
  have cl: "closed (fst ` set (nodes (graph init_state))) ops"
    unfolding ops_def by (rule closed_all_ops)
  from fold_apply_op_graph [OF nodes_full_init cl]
  show "nodes g = fold (\<lambda>(k, v). AList.update k v) (map node_write ops) []"
    and "edges g = fold add_new (concat (map edge_of ops)) []"
    and "nodes_full g"
    by (simp_all add: g st_def init_state_def DiGraph_def)
  from fold_apply_op_codes [of ops init_state]
  have fc: "function_codes st = fold (\<lambda>(k, v). AList.update k v) (concat (map func_write ops)) []"
    and cc: "class_codes st = fold (\<lambda>(k, v). AList.update k v) (concat (map class_write ops)) []"
    and fn: "file_nodes st = fold (\<lambda>(k, v). AList.update k v) (concat (map file_write ops)) []"
    by (simp_all add: st_def init_state_def)
  from fn f show "fnodes = fold (\<lambda>(k, v). AList.update k v) (concat (map file_write ops)) []"
    by simp
  have "distinct (map fst (class_codes st))"
    unfolding cc by (rule distinct_fold_update) simp
  then have "map_of codes = map_of (function_codes st) ++ map_of (class_codes st)"
    unfolding c by (rule map_of_dict_update)
  then show "map_of codes = map_of (rev (concat (map func_write ops)))
                          ++ map_of (rev (concat (map class_write ops)))"
    by (simp add: fc cc map_of_fold_update)
qed

section \<open>The walk reaches every statement\<close>

lemma set_descendants:
  "set (descendants n) = insert n (\<Union>c\<in>set (iter_child_nodes n). set (descendants c))"
  by (cases n) simp_all

lemma set_walk_queue: "set (walk_queue q) = (\<Union>n\<in>set q. set (descendants n))"
proof (induction q rule: walk_queue.induct)
  case 1
  then show ?case by simp
next
  case (2 node todo)
  have "set (walk_queue (node # todo)) = insert node (set (walk_queue (todo @ iter_child_nodes node)))"
    by simp
  also have "\<dots> = insert node ((\<Union>n\<in>set todo. set (descendants n))
       \<union> (\<Union>c\<in>set (iter_child_nodes node). set (descendants c)))"
    by (simp add: "2.IH" UN_Un)
  also have "\<dots> = set (descendants node) \<union> (\<Union>n\<in>set todo. set (descendants n))"
    using set_descendants [of node] by blast
  finally show ?case by simp
qed

lemma set_ast_walk: "set (ast_walk tree) = statements tree"
  by (cases tree) (simp add: set_walk_queue)

section \<open>parse_imports\<close>

lemma keys_fold_alias:
  "fst ` set (fold (\<lambda>alias. AList.update (f alias) (h alias)) names d) = fst ` set d \<union> f ` set names"
  by (induction names arbitrary: d) (auto simp: keys_update)

lemma distinct_fold_alias:
  "distinct (map fst d) \<Longrightarrow> distinct (map fst (fold (\<lambda>alias. AList.update (f alias) (h alias)) names d))"
  by (induction names arbitrary: d) (simp_all add: distinct_update)

lemma keys_import_node: "fst ` set (import_node s d) = fst ` set d \<union> flat_identifiers s"
proof (cases s)
  case (ImportFrom m names)
  then show ?thesis
    by (cases m) (auto simp: keys_fold_alias Let_def)
qed (simp_all add: keys_fold_alias)

lemma distinct_import_node: "distinct (map fst d) \<Longrightarrow> distinct (map fst (import_node s d))"
  by (cases s) (simp_all add: distinct_fold_alias Let_def)

lemma keys_fold_import_node:
  "fst ` set (fold import_node ns d) = fst ` set d \<union> (\<Union>s\<in>set ns. flat_identifiers s)"
  by (induction ns arbitrary: d) (auto simp: keys_import_node)

lemma distinct_fold_import_node:
  "distinct (map fst d) \<Longrightarrow> distinct (map fst (fold import_node ns d))"
  by (induction ns arbitrary: d) (simp_all add: distinct_import_node)

lemma keys_imports_of: "fst ` set (imports_of tree) = (\<Union>s\<in>statements tree. flat_identifiers s)"
  by (simp add: imports_of_def keys_fold_import_node set_ast_walk)

lemma distinct_imports_of: "distinct (map fst (imports_of tree))"
  by (simp add: imports_of_def distinct_fold_import_node)

text \<open>
  Claim C3. For a file that can be read and parsed, \<open>parse_imports\<close> returns a
  dictionary whose keys are exactly the flat identifiers of the import
  statements of the file, at any depth: \<open>MODULE.NAME\<close> for every name imported
  from a module, the name alone when the module part is empty or absent, and the
  name for a bare import; each identifier is reported once.
\<close>

theorem parse_imports_flat_identifiers:
  "\<exists>imports. parse_imports (File (Some (Source tree))) = Inr imports
     \<and> fst ` set imports = (\<Union>s\<in>statements tree. flat_identifiers s)
     \<and> distinct (map fst imports)"
  by (simp add: parse_imports_parsed keys_imports_of distinct_imports_of)

theorem parse_imports_flat_identifiers_witness:
  "\<exists>imports. parse_imports (File (Some (Source imports_example))) = Inr imports
     \<and> fst ` set imports = {''os'', ''a.b'', ''x'', ''p.q''}
     \<and> distinct (map fst imports)"
  using parse_imports_flat_identifiers [of imports_example]
  by (auto simp: imports_example_def)

section \<open>Nodes and edges of a run\<close>

lemma in_entry_ops:
  "x \<in> set (entry_ops (p, e)) \<longleftrightarrow> (\<exists>tree. parsed e = Some tree \<and> x \<in> set (file_ops p tree))"
  by (cases "parsed e") (simp_all add: entry_ops_def)

lemma in_all_ops:
  "x \<in> set (all_ops es) \<longleftrightarrow>
     (\<exists>p e tree. (p, e) \<in> set es \<and> parsed e = Some tree \<and> x \<in> set (file_ops p tree))"
proof -
  have "x \<in> set (all_ops es) \<longleftrightarrow> (\<exists>pe\<in>set es. x \<in> set (entry_ops pe))"
    by (simp add: all_ops_def)
  also have "\<dots> \<longleftrightarrow> (\<exists>p e. (p, e) \<in> set es \<and> x \<in> set (entry_ops (p, e)))"
    by auto
  finally show ?thesis by (simp add: in_entry_ops)
qed

lemma in_item_ops:
  "x \<in> set (item_ops cn item) \<longleftrightarrow>
     (\<exists>m b t. item = FunctionDef m b t \<and> x = FuncOp cn (cn @ ''::'' @ m) t)"
  by (cases item) auto

lemma in_visit_ops:
  "x \<in> set (visit_ops f node) \<longleftrightarrow>
     (\<exists>m b t. node = FunctionDef m b t \<and> x = FuncOp f (f @ ''::'' @ m) t)
   \<or> (\<exists>c cb ct. node = ClassDef c cb ct
        \<and> (x = ClassOp f (f @ ''::'' @ c) ct
           \<or> (\<exists>m b t. FunctionDef m b t \<in> set cb
                \<and> x = FuncOp (f @ ''::'' @ c) (f @ ''::'' @ c @ ''::'' @ m) t)))"
  by (cases node) (auto simp: in_item_ops)

lemma in_file_ops_walk:
  "x \<in> set (file_ops p tree) \<longleftrightarrow>
     x = FileOp p
   \<or> (\<exists>node\<in>statements tree. x \<in> set (visit_ops p node))
   \<or> (\<exists>m\<in>fst ` set (imports_of tree). x = ModuleOp p m)"
proof -
  have "set (map (\<lambda>(imported_module, symbols). ModuleOp p imported_module) (imports_of tree))
      = (\<lambda>m. ModuleOp p m) ` fst ` set (imports_of tree)"
    by (simp add: image_image case_prod_beta)
  then show ?thesis
    by (auto simp: file_ops_def set_ast_walk [symmetric])
qed

lemma in_file_ops:
  "x \<in> set (file_ops p tree) \<longleftrightarrow>
     x = FileOp p
   \<or> (\<exists>m b t. FunctionDef m b t \<in> statements tree \<and> x = FuncOp p (p @ ''::'' @ m) t)
   \<or> (\<exists>c cb ct. ClassDef c cb ct \<in> statements tree
        \<and> (x = ClassOp p (p @ ''::'' @ c) ct
           \<or> (\<exists>m b t. FunctionDef m b t \<in> set cb
                \<and> x = FuncOp (p @ ''::'' @ c) (p @ ''::'' @ c @ ''::'' @ m) t)))
   \<or> (\<exists>m\<in>fst ` set (imports_of tree). x = ModuleOp p m)"
proof -
  let ?F = "\<lambda>node. \<exists>m b t. node = FunctionDef m b t \<and> x = FuncOp p (p @ ''::'' @ m) t"
  let ?C = "\<lambda>node. \<exists>c cb ct. node = ClassDef c cb ct
        \<and> (x = ClassOp p (p @ ''::'' @ c) ct
           \<or> (\<exists>m b t. FunctionDef m b t \<in> set cb
                \<and> x = FuncOp (p @ ''::'' @ c) (p @ ''::'' @ c @ ''::'' @ m) t))"
  have "(\<exists>node\<in>statements tree. x \<in> set (visit_ops p node))
      \<longleftrightarrow> (\<exists>node\<in>statements tree. ?F node) \<or> (\<exists>node\<in>statements tree. ?C node)"
    unfolding in_visit_ops by (rule bex_disj_distrib)
  moreover have "(\<exists>node\<in>statements tree. ?F node)
      \<longleftrightarrow> (\<exists>m b t. FunctionDef m b t \<in> statements tree \<and> x = FuncOp p (p @ ''::'' @ m) t)"
    by blast
  moreover have "(\<exists>node\<in>statements tree. ?C node)
      \<longleftrightarrow> (\<exists>c cb ct. ClassDef c cb ct \<in> statements tree
        \<and> (x = ClassOp p (p @ ''::'' @ c) ct
           \<or> (\<exists>m b t. FunctionDef m b t \<in> set cb
                \<and> x = FuncOp (p @ ''::'' @ c) (p @ ''::'' @ c @ ''::'' @ m) t)))"
    by blast
  ultimately show ?thesis
    unfolding in_file_ops_walk by simp
qed

lemma build_nodes_edges:
  assumes "build_import_graph directory root_entry = Inr (g, fnodes, codes)"
  defines "ops \<equiv> all_ops (py_entries (os_walk_root directory root_entry))"
  shows "fst ` set (nodes g) = target ` set ops"
    and "distinct (map fst (nodes g))"
    and "map_of (nodes g) = map_of (rev (map node_write ops))"
    and "set (edges g) = (\<Union>x\<in>set ops. set (edge_of x))"
    and "distinct (edges g)"
proof -
  note r = build_import_graph_Inr [OF assms(1), folded ops_def]
  show "fst ` set (nodes g) = target ` set ops"
    by (simp add: r(2) keys_fold_update node_write_def image_image)
  show "distinct (map fst (nodes g))"
    unfolding r(2) by (rule distinct_fold_update) simp
  show "map_of (nodes g) = map_of (rev (map node_write ops))"
    by (simp add: r(2) map_of_fold_update)
  show "set (edges g) = (\<Union>x\<in>set ops. set (edge_of x))"
    by (simp add: r(3) set_fold_add_new)
  show "distinct (edges g)"
    unfolding r(3) by (rule distinct_fold_add_new) simp
qed

section \<open>Idempotent insertion\<close>

lemma dict_update_same:
  "(\<And>k v. (k, v) \<in> set kw \<Longrightarrow> map_of d k = Some v) \<Longrightarrow> dict_update d kw = d"
proof (induction kw)
  case Nil
  then show ?case by (simp add: dict_update_def)
next
  case (Cons kv kw)
  obtain k v where kv: "kv = (k, v)" by (cases kv)
  have "AList.update k v d = d"
    by (rule update_triv) (simp add: Cons.prems kv)
  moreover have "dict_update d kw = d"
    by (rule Cons.IH) (simp add: Cons.prems)
  ultimately show ?case by (simp add: dict_update_def kv)
qed

lemma add_node_idem:
  assumes "distinct (map fst kw)"
  shows "add_node n kw (add_node n kw g) = add_node n kw g"
proof -
  have self: "dict_update kw kw = kw"
    by (rule dict_update_same) (simp add: assms)
  have again: "dict_update (dict_update a kw) kw = dict_update a kw" for a
    by (rule dict_update_same) (simp add: map_of_dict_update assms map_add_find_right)
  show ?thesis
    by (cases "map_of (nodes g) n") (simp_all add: add_node_def update_conv' self again)
qed

lemma keys_add_edge:
  "fst ` set (nodes (add_edge u v g)) = insert u (insert v (fst ` set (nodes g)))"
proof -
  define g1 where "g1 = (if map_of (nodes g) u = None then g\<lparr>nodes := AList.update u [] (nodes g)\<rparr> else g)"
  define g2 where "g2 = (if map_of (nodes g1) v = None then g1\<lparr>nodes := AList.update v [] (nodes g1)\<rparr> else g1)"
  have k1: "fst ` set (nodes g1) = insert u (fst ` set (nodes g))"
    by (auto simp: g1_def keys_update map_of_eq_None_iff)
  have k2: "fst ` set (nodes g2) = insert v (fst ` set (nodes g1))"
    by (auto simp: g2_def keys_update map_of_eq_None_iff)
  have "nodes (add_edge u v g) = nodes g2"
    by (auto simp: add_edge_def g1_def g2_def Let_def)
  with k1 k2 show ?thesis by auto
qed

lemma set_edges_add_edge: "set (edges (add_edge u v g)) = insert (u, v) (set (edges g))"
proof -
  define g1 where "g1 = (if map_of (nodes g) u = None then g\<lparr>nodes := AList.update u [] (nodes g)\<rparr> else g)"
  define g2 where "g2 = (if map_of (nodes g1) v = None then g1\<lparr>nodes := AList.update v [] (nodes g1)\<rparr> else g1)"
  have e: "edges g2 = edges g"
    by (simp add: g1_def g2_def)
  have "edges (add_edge u v g) = (if (u, v) \<in> set (edges g2) then edges g2 else edges g2 @ [(u, v)])"
    by (simp add: add_edge_def g1_def g2_def Let_def)
  with e show ?thesis by auto
qed

lemma add_edge_idem: "add_edge u v (add_edge u v g) = add_edge u v g"
proof -
  have "add_edge u v (add_edge u v g)
      = (add_edge u v g)\<lparr>edges := add_new (u, v) (edges (add_edge u v g))\<rparr>"
    by (rule add_edge_present) (simp_all add: keys_add_edge)
  moreover have "add_new (u, v) (edges (add_edge u v g)) = edges (add_edge u v g)"
    by (simp add: add_new_def set_edges_add_edge)
  ultimately show ?thesis by simp
qed

lemma shared_build:
  "build_import_graph ''d'' shared_imports =
     Inr (shared_graph, [(''d/a.py'', ''d/a.py''), (''d/b.py'', ''d/b.py'')], [])"
  by code_simp

lemma once_if_distinct: "distinct xs \<Longrightarrow> x \<in> set xs \<Longrightarrow> length (filter (\<lambda>y. y = x) xs) = 1"
  by (induction xs) (auto simp: filter_empty_conv)

lemma node_once:
  assumes "distinct (map fst al)" and "k \<in> fst ` set al"
  shows "length (filter (\<lambda>na. fst na = k) al) = 1"
proof -
  have "length (filter (\<lambda>na. fst na = k) al) = length (filter (\<lambda>y. y = k) (map fst al))"
    by (simp add: filter_map comp_def)
  with once_if_distinct [OF assms(1), of k] assms(2) show ?thesis by simp
qed

lemma import_written:
  assumes "(p, e) \<in> set es" and "parsed e = Some tree"
    and "m \<in> (\<Union>s\<in>statements tree. flat_identifiers s)"
  shows "ModuleOp p m \<in> set (all_ops es)"
  unfolding in_all_ops in_file_ops keys_imports_of using assms by blast

text \<open>
  Claim C9. Inserting a node again with the same attributes, or an edge again,
  leaves the graph as it is. In the graph of a run the node identities are
  pairwise distinct and so are the edges: an identifier that a file imports,
  however often and in whatever form, and however many files import it, is the
  key of exactly one node, with exactly one edge from that file to it.
\<close>

theorem insertion_idempotent:
  "(distinct (map fst kw) \<longrightarrow> add_node n kw (add_node n kw g0) = add_node n kw g0)
   \<and> add_edge u v (add_edge u v g0) = add_edge u v g0
   \<and> (build_import_graph directory root_entry = Inr (g, fnodes, codes) \<longrightarrow>
        distinct (map fst (nodes g)) \<and> distinct (edges g)
        \<and> (\<forall>p e tree m. (p, e) \<in> set (py_entries (os_walk_root directory root_entry))
              \<and> parsed e = Some tree \<and> m \<in> (\<Union>s\<in>statements tree. flat_identifiers s)
            \<longrightarrow> length (filter (\<lambda>na. fst na = m) (nodes g)) = 1
              \<and> length (filter (\<lambda>ed. ed = (p, m)) (edges g)) = 1))"
proof (intro conjI impI allI)
  show "add_node n kw (add_node n kw g0) = add_node n kw g0" if "distinct (map fst kw)"
    using that by (rule add_node_idem)
  show "add_edge u v (add_edge u v g0) = add_edge u v g0"
    by (rule add_edge_idem)
next
  assume b: "build_import_graph directory root_entry = Inr (g, fnodes, codes)"
  note r = build_nodes_edges [OF b]
  show "distinct (map fst (nodes g))" by (rule r(2))
  show "distinct (edges g)" by (rule r(5))
  fix p e tree m
  assume "(p, e) \<in> set (py_entries (os_walk_root directory root_entry))
      \<and> parsed e = Some tree \<and> m \<in> (\<Union>s\<in>statements tree. flat_identifiers s)"
  then have w: "ModuleOp p m \<in> set (all_ops (py_entries (os_walk_root directory root_entry)))"
    by (blast intro: import_written)
  then have "m \<in> fst ` set (nodes g)"
    unfolding r(1) by force
  then show "length (filter (\<lambda>na. fst na = m) (nodes g)) = 1"
    by (rule node_once [OF r(2)])
  from w have "(p, m) \<in> set (edges g)"
    unfolding r(4) by force
  then show "length (filter (\<lambda>ed. ed = (p, m)) (edges g)) = 1"
    by (rule once_if_distinct [OF r(5)])
qed

theorem insertion_idempotent_witness:
  "distinct (map fst module_attrs)
   \<and> add_node ''p.q'' module_attrs (add_node ''p.q'' module_attrs DiGraph)
       = add_node ''p.q'' module_attrs DiGraph
   \<and> build_import_graph ''d'' shared_imports
       = Inr (shared_graph, [(''d/a.py'', ''d/a.py''), (''d/b.py'', ''d/b.py'')], [])
   \<and> distinct (map fst (nodes shared_graph)) \<and> distinct (edges shared_graph)
   \<and> length (filter (\<lambda>na. fst na = ''p.q'') (nodes shared_graph)) = 1
   \<and> length (filter (\<lambda>ed. ed = (''d/a.py'', ''p.q'')) (edges shared_graph)) = 1"
proof -
  have d: "distinct (map fst module_attrs)"
    by (simp add: module_attrs_def)
  note t = insertion_idempotent [of module_attrs "''p.q''" DiGraph "''x''" "''y''" "''d''"
      shared_imports shared_graph "[(''d/a.py'', ''d/a.py''), (''d/b.py'', ''d/b.py'')]" "[]"]
  from t d have 1: "add_node ''p.q'' module_attrs (add_node ''p.q'' module_attrs DiGraph)
       = add_node ''p.q'' module_attrs DiGraph"
    by blast
  from t shared_build have 2: "distinct (map fst (nodes shared_graph)) \<and> distinct (edges shared_graph)"
    by blast
  have 3: "length (filter (\<lambda>na. fst na = ''p.q'') (nodes shared_graph)) = 1"
    by (simp add: shared_graph_def)
  have 4: "length (filter (\<lambda>ed. ed = (''d/a.py'', ''p.q'')) (edges shared_graph)) = 1"
    by (simp add: shared_graph_def)
  from d 1 2 3 4 shared_build show ?thesis by blast
qed

section \<open>Paths\<close>

lemma join_slash: "a \<noteq> [] \<Longrightarrow> CHR ''/'' \<in> set (join a b)"
proof -
  assume a: "a \<noteq> []"
  have hd: "b \<noteq> [] \<Longrightarrow> hd b = CHR ''/'' \<Longrightarrow> CHR ''/'' \<in> set b"
    by (metis hd_in_set)
  have lst: "last a = CHR ''/'' \<Longrightarrow> CHR ''/'' \<in> set a"
    using a by (metis last_in_set)
  show ?thesis
    using hd lst a by (auto simp: join_def)
qed

lemma join_nonempty: "a \<noteq> [] \<Longrightarrow> join a b \<noteq> []"
  by (auto simp: join_def)

lemma os_walk_roots:
  "dir \<noteq> [] \<Longrightarrow> item \<in> set (os_walk dir e) \<Longrightarrow> fst item \<noteq> []"
  "dir \<noteq> [] \<Longrightarrow> item \<in> set (walk_dirs dir es) \<Longrightarrow> fst item \<noteq> []"
  by (induction dir e and dir es rule: os_walk_walk_dirs.induct)
     (auto simp: join_nonempty split: if_splits)

lemma in_py_entries:
  "(p, e) \<in> set (py_entries items) \<longleftrightarrow>
     (\<exists>root dirs files fname. (root, dirs, files) \<in> set items \<and> (fname, e) \<in> set files
        \<and> endswith fname ''.py'' \<and> p = join root fname)"
  by (auto simp: py_entries_def) force

lemma py_entries_slash:
  assumes "directory \<noteq> []" and "(p, e) \<in> set (py_entries (os_walk_root directory root_entry))"
  shows "CHR ''/'' \<in> set p"
proof -
  from assms(2) obtain root dirs files fname
    where item: "(root, dirs, files) \<in> set (os_walk_root directory root_entry)"
      and p: "p = join root fname"
    unfolding in_py_entries by blast
  from item obtain r where "root_entry = Some r" and "(root, dirs, files) \<in> set (os_walk directory r)"
    by (cases root_entry) auto
  with os_walk_roots(1) [OF assms(1), of "(root, dirs, files)" r] have "root \<noteq> []" by simp
  then show ?thesis unfolding p by (rule join_slash)
qed

section \<open>The attributes of a node\<close>

lemma map_of_all_agree:
  assumes "k \<in> fst ` set xs" and "\<And>v'. (k, v') \<in> set xs \<Longrightarrow> v' = v"
  shows "map_of xs k = Some v"
proof -
  from assms(1) obtain v' where "map_of xs k = Some v'"
    by (force dest: weak_map_of_SomeI)
  moreover from this have "(k, v') \<in> set xs" by (rule map_of_SomeD)
  ultimately show ?thesis using assms(2) by simp
qed

lemma node_attrs_agree:
  assumes b: "build_import_graph directory root_entry = Inr (g, fnodes, codes)"
    and w: "x \<in> set (all_ops (py_entries (os_walk_root directory root_entry)))"
    and agree: "\<And>y. y \<in> set (all_ops (py_entries (os_walk_root directory root_entry)))
        \<Longrightarrow> target y = target x \<Longrightarrow> kw_of y = kw_of x"
  shows "map_of (nodes g) (target x) = Some (kw_of x)"
  unfolding build_nodes_edges(3) [OF b]
proof (rule map_of_all_agree)
  from w show "target x \<in> fst ` set (rev (map node_write
      (all_ops (py_entries (os_walk_root directory root_entry)))))"
    by (force simp: node_write_def)
  fix v'
  assume "(target x, v') \<in> set (rev (map node_write
      (all_ops (py_entries (os_walk_root directory root_entry)))))"
  then obtain y where "y \<in> set (all_ops (py_entries (os_walk_root directory root_entry)))"
    and "target y = target x" and "v' = kw_of y"
    by (auto simp: node_write_def)
  with agree show "v' = kw_of x" by simp
qed

lemma target_slash:
  assumes "x \<in> set (file_ops p tree)" and "CHR ''/'' \<in> set p"
  shows "CHR ''/'' \<in> set (target x) \<or> (\<exists>m. x = ModuleOp p m)"
  using assms unfolding in_file_ops by auto

lemma module_attrs_of_import:
  assumes b: "build_import_graph directory root_entry = Inr (g, fnodes, codes)"
    and w: "ModuleOp p X \<in> set (all_ops (py_entries (os_walk_root directory root_entry)))"
    and d: "directory \<noteq> []" and X: "CHR ''/'' \<notin> set X"
  shows "map_of (nodes g) X = Some module_attrs"
proof -
  have "map_of (nodes g) (target (ModuleOp p X)) = Some (kw_of (ModuleOp p X))"
  proof (rule node_attrs_agree [OF b w])
    fix y
    assume y: "y \<in> set (all_ops (py_entries (os_walk_root directory root_entry)))"
      and t: "target y = target (ModuleOp p X)"
    from y obtain q e tree
      where q: "(q, e) \<in> set (py_entries (os_walk_root directory root_entry))"
        and f: "y \<in> set (file_ops q tree)"
      unfolding in_all_ops by blast
    from d q have "CHR ''/'' \<in> set q" by (rule py_entries_slash)
    with f have "CHR ''/'' \<in> set (target y) \<or> (\<exists>m. y = ModuleOp q m)" by (rule target_slash)
    with t X show "kw_of y = kw_of (ModuleOp p X)" by auto
  qed
  then show ?thesis by simp
qed

text \<open>
  Claim C4. When two files of a run both import the flat identifier \<open>X\<close>, the graph
  holds exactly one node keyed by \<open>X\<close>, it is a Module node, and it has an edge
  from the File node of each of the two files. (The identifier is a dotted
  Python name, so it holds no \<open>/\<close>, and the empty path names no directory.)
\<close>

theorem shared_module_node:
  assumes "build_import_graph directory root_entry = Inr (g, fnodes, codes)"
    and "(pa, ea) \<in> set (py_entries (os_walk_root directory root_entry))"
    and "parsed ea = Some ta" and "X \<in> (\<Union>s\<in>statements ta. flat_identifiers s)"
    and "(pb, eb) \<in> set (py_entries (os_walk_root directory root_entry))"
    and "parsed eb = Some tb" and "X \<in> (\<Union>s\<in>statements tb. flat_identifiers s)"
    and "pa \<noteq> pb"
    and "directory \<noteq> []" and "CHR ''/'' \<notin> set X"
  shows "length (filter (\<lambda>na. fst na = X) (nodes g)) = 1
       \<and> map_of (nodes g) X = Some module_attrs
       \<and> (pa, X) \<in> set (edges g) \<and> (pb, X) \<in> set (edges g)"
proof -
  note r = build_nodes_edges [OF assms(1)]
  have wa: "ModuleOp pa X \<in> set (all_ops (py_entries (os_walk_root directory root_entry)))"
    using assms(2,3,4) by (rule import_written)
  have wb: "ModuleOp pb X \<in> set (all_ops (py_entries (os_walk_root directory root_entry)))"
    using assms(5,6,7) by (rule import_written)
  from wa have "X \<in> fst ` set (nodes g)" unfolding r(1) by force
  then have "length (filter (\<lambda>na. fst na = X) (nodes g)) = 1"
    by (rule node_once [OF r(2)])
  moreover have "map_of (nodes g) X = Some module_attrs"
    using assms(1) wa assms(9,10) by (rule module_attrs_of_import)
  moreover from wa have "(pa, X) \<in> set (edges g)" unfolding r(4) by force
  moreover from wb have "(pb, X) \<in> set (edges g)" unfolding r(4) by force
  ultimately show ?thesis by simp
qed

theorem shared_module_node_witness:
  "build_import_graph ''d'' shared_imports
       = Inr (shared_graph, [(''d/a.py'', ''d/a.py''), (''d/b.py'', ''d/b.py'')], [])
   \<and> ''d/a.py'' \<noteq> ''d/b.py''
   \<and> length (filter (\<lambda>na. fst na = ''p.q'') (nodes shared_graph)) = 1
   \<and> map_of (nodes shared_graph) ''p.q'' = Some module_attrs
   \<and> (''d/a.py'', ''p.q'') \<in> set (edges shared_graph)
   \<and> (''d/b.py'', ''p.q'') \<in> set (edges shared_graph)"
proof -
  let ?ta = "Module [Import [''p.q''], ImportFrom (Some ''p'') [''q'']]"
  let ?tb = "Module [Import [''p.q'']]"
  have es: "py_entries (os_walk_root ''d'' shared_imports)
      = [(''d/a.py'', File (Some (Source ?ta))), (''d/b.py'', File (Some (Source ?tb)))]"
    by code_simp
  have 1: "(''d/a.py'', File (Some (Source ?ta))) \<in> set (py_entries (os_walk_root ''d'' shared_imports))"
    by (simp add: es)
  have 2: "parsed (File (Some (Source ?ta))) = Some ?ta" by simp
  have 3: "''p.q'' \<in> (\<Union>s\<in>statements ?ta. flat_identifiers s)" by simp
  have 4: "(''d/b.py'', File (Some (Source ?tb))) \<in> set (py_entries (os_walk_root ''d'' shared_imports))"
    by (simp add: es)
  have 5: "parsed (File (Some (Source ?tb))) = Some ?tb" by simp
  have 6: "''p.q'' \<in> (\<Union>s\<in>statements ?tb. flat_identifiers s)" by simp
  have 7: "''d/a.py'' \<noteq> ''d/b.py''" by simp
  have 8: "''d'' \<noteq> []" by simp
  have 9: "CHR ''/'' \<notin> set ''p.q''" by simp
  from shared_module_node [OF shared_build 1 2 3 4 5 6 7 8 9] shared_build 7
  show ?thesis by simp
qed

section \<open>Files that cannot be read or parsed\<close>



lemma build_import_graph_total:
  assumes "first_error (py_entries (os_walk_root directory root_entry)) = None"
  shows "\<exists>g fnodes codes. build_import_graph directory root_entry = Inr (g, fnodes, codes)"
  using assms by (simp add: build_import_graph_run Let_def)





lemma written_in_graph:
  assumes "build_import_graph directory root_entry = Inr (g, fnodes, codes)"
    and "x \<in> set (all_ops (py_entries (os_walk_root directory root_entry)))"
  shows "target x \<in> fst ` set (nodes g)" and "set (edge_of x) \<subseteq> set (edges g)"
  using assms(2) unfolding build_nodes_edges(1,4) [OF assms(1)] by auto


lemma scenario_entries:
  "py_entries (os_walk_root ''d'' scenario) =
     [(''d/a.py'', File (Some (Source (Module
         [FunctionDef ''foo'' [Simple] ''def foo(): pass'', Import [''os'']])))),
      (''d/b.py'', File (Some (Source (Module [ImportFrom (Some ''a'') [''foo'']])))),
      (''d/c.py'', File (Some (Source (Module [Simple]))))]"
  by code_simp





section \<open>main\<close>









lemma one_method_build:
  "build_import_graph ''d'' one_method
     = Inr (one_method_graph, [(''d/a.py'', ''d/a.py'')], one_method_codes)"
  by code_simp


section \<open>The stored texts\<close>









lemma one_method_entries:
  "py_entries (os_walk_root ''d'' one_method) =
     [(''d/a.py'', File (Some (Source (Module
         [ClassDef ''C'' [FunctionDef ''m'' [Simple] ''def m(): 1''] ''class C'']))))]"
  by code_simp


section \<open>Containment\<close>

lemma self_in_descendants: "n \<in> set (descendants n)"
  by (simp add: set_descendants [of n])

lemma child_in_descendants:
  assumes c: "c \<in> set (iter_child_nodes n)"
  shows "n \<in> set (descendants s) \<Longrightarrow> c \<in> set (descendants s)"
proof -
  have step: "c \<in> set (descendants s)"
    if ih: "\<And>x. x \<in> set (iter_child_nodes s) \<Longrightarrow> n \<in> set (descendants x) \<Longrightarrow> c \<in> set (descendants x)"
      and n: "n \<in> set (descendants s)" for s
  proof -
    from n have "n = s \<or> (\<exists>x\<in>set (iter_child_nodes s). n \<in> set (descendants x))"
      by (subst (asm) set_descendants) blast
    then have "\<exists>x\<in>set (iter_child_nodes s). c \<in> set (descendants x)"
    proof
      assume "n = s"
      with c self_in_descendants [of c] show ?thesis by blast
    next
      assume "\<exists>x\<in>set (iter_child_nodes s). n \<in> set (descendants x)"
      with ih show ?thesis by blast
    qed
    then show ?thesis by (subst set_descendants) blast
  qed
  show "n \<in> set (descendants s) \<Longrightarrow> c \<in> set (descendants s)"
  proof (induction s rule: descendants.induct)
    case (1 nm bd tx)
    show ?case by (rule step) (use 1 in simp_all)
  next
    case (2 nm bd)
    show ?case by (rule step) (use 2 in simp_all)
  next
    case (3 nm bd tx)
    show ?case by (rule step) (use 3 in simp_all)
  next
    case (4 children)
    show ?case by (rule step) (use 4 in simp_all)
  next
    case (5 names)
    show ?case by (rule step) (use 5 in simp_all)
  next
    case (6 m names)
    show ?case by (rule step) (use 6 in simp_all)
  next
    case 7
    show ?case by (rule step) (use 7 in simp_all)
  qed
qed

lemma child_in_statements:
  "ClassDef c cb ct \<in> statements tree \<Longrightarrow> item \<in> set cb \<Longrightarrow> item \<in> statements tree"
proof -
  assume cl: "ClassDef c cb ct \<in> statements tree" and it: "item \<in> set cb"
  obtain body where tree: "tree = Module body" by (cases tree)
  from cl obtain s where s: "s \<in> set body" and d: "ClassDef c cb ct \<in> set (descendants s)"
    by (auto simp: tree)
  from it have ch: "item \<in> set (iter_child_nodes (ClassDef c cb ct))" by simp
  from ch d have "item \<in> set (descendants s)" by (rule child_in_descendants)
  with s show ?thesis by (auto simp: tree)
qed

lemma flat_identifier_plain: "stmt_plain s \<Longrightarrow> X \<in> flat_identifiers s \<Longrightarrow> CHR '':'' \<notin> set X"
  by (induction s rule: flat_identifiers.induct) (auto split: if_splits)

lemma first_occurrence_unique:
  "c \<notin> set xs \<Longrightarrow> c \<notin> set xs' \<Longrightarrow> xs @ c # ys = xs' @ c # ys' \<Longrightarrow> ys = ys'"
proof (induction xs arbitrary: xs')
  case Nil
  then show ?case by (cases xs') auto
next
  case (Cons a xs)
  then show ?case by (cases xs') auto
qed

lemma separator_unique:
  assumes "u @ ''::'' @ x = u' @ ''::'' @ x'"
    and "CHR '':'' \<notin> set x" and "CHR '':'' \<notin> set x'"
  shows "u = u'"
proof -
  from assms(1) have "rev (u @ ''::'' @ x) = rev (u' @ ''::'' @ x')" by simp
  then have eq: "rev x @ CHR '':'' # (CHR '':'' # rev u) = rev x' @ CHR '':'' # (CHR '':'' # rev u')"
    by simp
  from assms(2,3) have nx: "CHR '':'' \<notin> set (rev x)" and nx': "CHR '':'' \<notin> set (rev x')"
    by simp_all
  from nx nx' eq have "CHR '':'' # rev u = CHR '':'' # rev u'"
    by (rule first_occurrence_unique)
  then show ?thesis by simp
qed

lemma attrs_distinct [simp]:
  "file_attrs \<noteq> function_attrs" "file_attrs \<noteq> class_attrs" "module_attrs \<noteq> function_attrs"
  "module_attrs \<noteq> class_attrs" "function_attrs \<noteq> class_attrs" "file_attrs \<noteq> module_attrs"
  by (simp_all add: file_attrs_def function_attrs_def class_attrs_def module_attrs_def)

lemma plain_statements:
  assumes "names_plain es" and "(p, e) \<in> set es" and "parsed e = Some tree" and "s \<in> statements tree"
  shows "stmt_plain s"
  using assms unfolding names_plain_def by force

text \<open>The shape of a declaration write: its edge leads from \<open>u\<close> to \<open>u::name\<close>.\<close>

lemma decl_write_shape:
  assumes np: "names_plain es" and x: "x \<in> set (all_ops es)"
    and kw: "kw_of x = function_attrs \<or> kw_of x = class_attrs"
  shows "\<exists>p e tree. (p, e) \<in> set es \<and> parsed e = Some tree \<and>
     ((\<exists>m bd t. FunctionDef m bd t \<in> statements tree \<and> CHR '':'' \<notin> set m
          \<and> target x = p @ ''::'' @ m \<and> edge_of x = [(p, target x)])
      \<or> (\<exists>c cb ct. ClassDef c cb ct \<in> statements tree \<and> CHR '':'' \<notin> set c
          \<and> target x = p @ ''::'' @ c \<and> edge_of x = [(p, target x)])
      \<or> (\<exists>c cb ct m bd t. ClassDef c cb ct \<in> statements tree \<and> FunctionDef m bd t \<in> set cb
          \<and> CHR '':'' \<notin> set m
          \<and> target x = p @ ''::'' @ c @ ''::'' @ m \<and> edge_of x = [(p @ ''::'' @ c, target x)]))"
proof -
  from x obtain p e tree where pe: "(p, e) \<in> set es" "parsed e = Some tree"
    and f: "x \<in> set (file_ops p tree)"
    unfolding in_all_ops by blast
  note plain = plain_statements [OF np pe]
  from f consider
      (ofile) "x = FileOp p"
    | (ofunc) m bd t where "FunctionDef m bd t \<in> statements tree" "x = FuncOp p (p @ ''::'' @ m) t"
    | (ocls) c cb ct where "ClassDef c cb ct \<in> statements tree" "x = ClassOp p (p @ ''::'' @ c) ct"
    | (ometh) c cb ct m bd t where "ClassDef c cb ct \<in> statements tree" "FunctionDef m bd t \<in> set cb"
        "x = FuncOp (p @ ''::'' @ c) (p @ ''::'' @ c @ ''::'' @ m) t"
    | (omod) X where "x = ModuleOp p X"
    unfolding in_file_ops by blast
  then show ?thesis
  proof cases
    case ofile
    with kw show ?thesis by simp
  next
    case ofunc
    from plain [OF ofunc(1)] have "CHR '':'' \<notin> set m" by simp
    with ofunc pe show ?thesis
      by (intro exI [of _ p] exI [of _ e] exI [of _ tree]) force
  next
    case ocls
    from plain [OF ocls(1)] have "CHR '':'' \<notin> set c" by simp
    with ocls pe show ?thesis
      by (intro exI [of _ p] exI [of _ e] exI [of _ tree]) force
  next
    case ometh
    from ometh(1,2) have "FunctionDef m bd t \<in> statements tree" by (rule child_in_statements)
    from plain [OF this] have "CHR '':'' \<notin> set m" by simp
    with ometh pe show ?thesis
      by (intro exI [of _ p] exI [of _ e] exI [of _ tree]) force
  next
    case omod
    with kw show ?thesis by simp
  qed
qed

text \<open>The shape of every edge: to \<open>u::name\<close>, or to an identity without a colon.\<close>

lemma edge_shape:
  assumes np: "names_plain es" and x: "x \<in> set (all_ops es)" and e: "(u, v) \<in> set (edge_of x)"
  shows "(\<exists>name. v = u @ ''::'' @ name \<and> CHR '':'' \<notin> set name) \<or> CHR '':'' \<notin> set v"
proof (cases "kw_of x = function_attrs \<or> kw_of x = class_attrs")
  case True
  from decl_write_shape [OF np x True] e show ?thesis by fastforce
next
  case False
  from x obtain p ent tree where pe: "(p, ent) \<in> set es" "parsed ent = Some tree"
    and f: "x \<in> set (file_ops p tree)"
    unfolding in_all_ops by blast
  from False e obtain X where X: "x = ModuleOp u X" "v = X"
    by (cases x) auto
  with f have "X \<in> fst ` set (imports_of tree)"
    unfolding in_file_ops by auto
  then obtain s where s: "s \<in> statements tree" and Xs: "X \<in> flat_identifiers s"
    unfolding keys_imports_of by blast
  from s have "stmt_plain s" by (rule plain_statements [OF np pe])
  from this Xs have "CHR '':'' \<notin> set X" by (rule flat_identifier_plain)
  with X show ?thesis by simp
qed

lemma decl_write_edge:
  assumes np: "names_plain es" and x: "x \<in> set (all_ops es)"
    and kw: "kw_of x = function_attrs \<or> kw_of x = class_attrs"
  shows "\<exists>u name. edge_of x = [(u, target x)] \<and> target x = u @ ''::'' @ name \<and> CHR '':'' \<notin> set name"
proof -
  from decl_write_shape [OF np x kw] obtain p where
    "(\<exists>m. CHR '':'' \<notin> set m \<and> target x = p @ ''::'' @ m \<and> edge_of x = [(p, target x)])
     \<or> (\<exists>c m. CHR '':'' \<notin> set m \<and> target x = (p @ ''::'' @ c) @ ''::'' @ m
           \<and> edge_of x = [(p @ ''::'' @ c, target x)])"
    by fastforce
  then show ?thesis by blast
qed

text \<open>
  Claim C2, as stated, fails: identities do not carry the scope chain, and the
  edge of a Function node need not come from the nearest enclosing node. In a
  file whose only function is the method \<^verbatim>\<open>m\<close> of the class \<^verbatim>\<open>C\<close>, the graph holds,
  besides \<open>d/a.py::C::m\<close>, the Function node \<open>d/a.py::m\<close>, and its only incoming
  edge comes from the File node, not from the node of the class.
\<close>

theorem scope_chain_counterexample:
  "build_import_graph ''d'' one_method
     = Inr (one_method_graph, [(''d/a.py'', ''d/a.py'')], one_method_codes)
   \<and> statements (Module [ClassDef ''C'' [FunctionDef ''m'' [Simple] ''def m(): 1''] ''class C''])
       = {ClassDef ''C'' [FunctionDef ''m'' [Simple] ''def m(): 1''] ''class C'',
          FunctionDef ''m'' [Simple] ''def m(): 1'', Simple}
   \<and> map_of (nodes one_method_graph) ''d/a.py::m'' = Some function_attrs
   \<and> filter (\<lambda>ed. snd ed = ''d/a.py::m'') (edges one_method_graph) = [(''d/a.py'', ''d/a.py::m'')]
   \<and> (''d/a.py::C'', ''d/a.py::m'') \<notin> set (edges one_method_graph)"
  by (simp add: one_method_build) (simp add: one_method_graph_def)

text \<open>
  Claim C2, amended. In the graph of a run (names being free of colons, as the
  names of Python are), every Function or Class node has exactly one incoming
  edge. The node stands for a function or class definition found at any depth
  of a file, its identity is the file path joined to the name of the definition
  alone, and the edge comes from the File node; or it stands for a function
  directly in the body of a class, its identity is the path joined to the name
  of the class and the name of the function, and the edge comes from the node
  whose identity is the path joined to the name of the class.
\<close>

theorem containment_edge_unique:
  assumes "build_import_graph directory root_entry = Inr (g, fnodes, codes)"
    and "names_plain (py_entries (os_walk_root directory root_entry))"
    and "map_of (nodes g) n = Some a"
    and "a = function_attrs \<or> a = class_attrs"
  shows "(\<exists>!u. (u, n) \<in> set (edges g))
       \<and> (\<exists>p e tree. (p, e) \<in> set (py_entries (os_walk_root directory root_entry))
            \<and> parsed e = Some tree
            \<and> ((\<exists>m bd t. FunctionDef m bd t \<in> statements tree
                    \<and> n = p @ ''::'' @ m \<and> (p, n) \<in> set (edges g))
               \<or> (\<exists>c cb ct. ClassDef c cb ct \<in> statements tree
                    \<and> n = p @ ''::'' @ c \<and> (p, n) \<in> set (edges g))
               \<or> (\<exists>c cb ct m bd t. ClassDef c cb ct \<in> statements tree
                    \<and> FunctionDef m bd t \<in> set cb
                    \<and> n = p @ ''::'' @ c @ ''::'' @ m \<and> (p @ ''::'' @ c, n) \<in> set (edges g))))"
proof
  let ?es = "py_entries (os_walk_root directory root_entry)"
  note b = assms(1) and np = assms(2)
  from assms(3) have "(n, a) \<in> set (rev (map node_write (all_ops ?es)))"
    unfolding build_nodes_edges(3) [OF b] by (rule map_of_SomeD)
  then obtain x where x: "x \<in> set (all_ops ?es)" and tx: "target x = n" and kx: "kw_of x = a"
    by (auto simp: node_write_def)
  from assms(4) kx have kw: "kw_of x = function_attrs \<or> kw_of x = class_attrs" by simp
  from decl_write_edge [OF np x kw] obtain u name
    where ex: "edge_of x = [(u, n)]" and nu: "n = u @ ''::'' @ name" and pl: "CHR '':'' \<notin> set name"
    unfolding tx by blast
  from written_in_graph(2) [OF b x] ex have un: "(u, n) \<in> set (edges g)" by simp
  show "\<exists>!u. (u, n) \<in> set (edges g)"
  proof (rule ex1I [of _ u])
    show "(u, n) \<in> set (edges g)" by (rule un)
    fix u' assume "(u', n) \<in> set (edges g)"
    then obtain y where y: "y \<in> set (all_ops ?es)" and ey: "(u', n) \<in> set (edge_of y)"
      unfolding build_nodes_edges(4) [OF b] by blast
    from nu have "CHR '':'' \<in> set n" by simp
    with edge_shape [OF np y ey] obtain name'
      where "n = u' @ ''::'' @ name'" and "CHR '':'' \<notin> set name'"
      by blast
    with nu pl show "u' = u"
      by (metis separator_unique)
  qed
  from decl_write_shape [OF np x kw] obtain p e tree
    where pe: "(p, e) \<in> set ?es" "parsed e = Some tree"
      and sh: "(\<exists>m bd t. FunctionDef m bd t \<in> statements tree \<and> CHR '':'' \<notin> set m
          \<and> target x = p @ ''::'' @ m \<and> edge_of x = [(p, target x)])
      \<or> (\<exists>c cb ct. ClassDef c cb ct \<in> statements tree \<and> CHR '':'' \<notin> set c
          \<and> target x = p @ ''::'' @ c \<and> edge_of x = [(p, target x)])
      \<or> (\<exists>c cb ct m bd t. ClassDef c cb ct \<in> statements tree \<and> FunctionDef m bd t \<in> set cb
          \<and> CHR '':'' \<notin> set m
          \<and> target x = p @ ''::'' @ c @ ''::'' @ m \<and> edge_of x = [(p @ ''::'' @ c, target x)])"
    by blast
  have in_g: "edge_of x = [(v, n)] \<Longrightarrow> (v, n) \<in> set (edges g)" for v
    using written_in_graph(2) [OF b x] by simp
  from sh have "(\<exists>m bd t. FunctionDef m bd t \<in> statements tree
                    \<and> n = p @ ''::'' @ m \<and> (p, n) \<in> set (edges g))
               \<or> (\<exists>c cb ct. ClassDef c cb ct \<in> statements tree
                    \<and> n = p @ ''::'' @ c \<and> (p, n) \<in> set (edges g))
               \<or> (\<exists>c cb ct m bd t. ClassDef c cb ct \<in> statements tree
                    \<and> FunctionDef m bd t \<in> set cb
                    \<and> n = p @ ''::'' @ c @ ''::'' @ m \<and> (p @ ''::'' @ c, n) \<in> set (edges g))"
    unfolding tx using in_g by blast
  with pe show "\<exists>p e tree. (p, e) \<in> set ?es \<and> parsed e = Some tree
            \<and> ((\<exists>m bd t. FunctionDef m bd t \<in> statements tree
                    \<and> n = p @ ''::'' @ m \<and> (p, n) \<in> set (edges g))
               \<or> (\<exists>c cb ct. ClassDef c cb ct \<in> statements tree
                    \<and> n = p @ ''::'' @ c \<and> (p, n) \<in> set (edges g))
               \<or> (\<exists>c cb ct m bd t. ClassDef c cb ct \<in> statements tree
                    \<and> FunctionDef m bd t \<in> set cb
                    \<and> n = p @ ''::'' @ c @ ''::'' @ m \<and> (p @ ''::'' @ c, n) \<in> set (edges g)))"
    by blast
qed

lemma one_method_plain: "names_plain (py_entries (os_walk_root ''d'' one_method))"
  by (auto simp: one_method_entries names_plain_def)

theorem containment_edge_unique_witness:
  "names_plain (py_entries (os_walk_root ''d'' one_method))
   \<and> map_of (nodes one_method_graph) ''d/a.py::C::m'' = Some function_attrs
   \<and> (\<exists>!u. (u, ''d/a.py::C::m'') \<in> set (edges one_method_graph))
   \<and> (''d/a.py::C'', ''d/a.py::C::m'') \<in> set (edges one_method_graph)
   \<and> map_of (nodes one_method_graph) ''d/a.py::C'' = Some class_attrs
   \<and> (\<exists>!u. (u, ''d/a.py::C'') \<in> set (edges one_method_graph))"
proof -
  have n1: "map_of (nodes one_method_graph) ''d/a.py::C::m'' = Some function_attrs"
    by (simp add: one_method_graph_def)
  have n2: "map_of (nodes one_method_graph) ''d/a.py::C'' = Some class_attrs"
    by (simp add: one_method_graph_def)
  have k1: "function_attrs = function_attrs \<or> function_attrs = class_attrs" by simp
  have k2: "class_attrs = function_attrs \<or> class_attrs = class_attrs" by simp
  note t1 = containment_edge_unique [OF one_method_build one_method_plain n1 k1, THEN conjunct1]
  note t2 = containment_edge_unique [OF one_method_build one_method_plain n2 k2, THEN conjunct1]
  have e: "(''d/a.py::C'', ''d/a.py::C::m'') \<in> set (edges one_method_graph)"
    by (simp add: one_method_graph_def)
  from one_method_plain n1 t1 e n2 t2 show ?thesis
    by (intro conjI) assumption+
qed

section \<open>The click handler\<close>





















section \<open>The order of the files\<close>

lemma compatibleD:
  assumes "compatible es" and "pe \<in> set es" and "pe' \<in> set es" and "pe \<noteq> pe'"
    and "x \<in> set (entry_ops pe)" and "y \<in> set (entry_ops pe')" and "target x = target y"
  shows "kw_of x = kw_of y"
proof -
  from assms(1) have "\<forall>pe\<in>set es. \<forall>pe'\<in>set es. pe \<noteq> pe' \<longrightarrow>
      (\<forall>x\<in>set (entry_ops pe). \<forall>y\<in>set (entry_ops pe'). target x = target y \<longrightarrow> kw_of x = kw_of y)"
    by (simp only: compatible_def)
  then have "\<forall>pe'\<in>set es. pe \<noteq> pe' \<longrightarrow>
      (\<forall>x\<in>set (entry_ops pe). \<forall>y\<in>set (entry_ops pe'). target x = target y \<longrightarrow> kw_of x = kw_of y)"
    using assms(2) by (rule bspec)
  then have "pe \<noteq> pe' \<longrightarrow>
      (\<forall>x\<in>set (entry_ops pe). \<forall>y\<in>set (entry_ops pe'). target x = target y \<longrightarrow> kw_of x = kw_of y)"
    using assms(3) by (rule bspec)
  then have "\<forall>x\<in>set (entry_ops pe). \<forall>y\<in>set (entry_ops pe'). target x = target y \<longrightarrow> kw_of x = kw_of y"
    using assms(4) by (rule mp)
  then have "\<forall>y\<in>set (entry_ops pe'). target x = target y \<longrightarrow> kw_of x = kw_of y"
    using assms(5) by (rule bspec)
  then have "target x = target y \<longrightarrow> kw_of x = kw_of y"
    using assms(6) by (rule bspec)
  then show ?thesis using assms(7) by (rule mp)
qed

lemma compatibleI:
  assumes r: "\<And>pe pe' x y. pe \<in> set es \<Longrightarrow> pe' \<in> set es \<Longrightarrow> pe \<noteq> pe'
     \<Longrightarrow> x \<in> set (entry_ops pe) \<Longrightarrow> y \<in> set (entry_ops pe') \<Longrightarrow> target x = target y
     \<Longrightarrow> kw_of x = kw_of y"
  shows "compatible es"
  unfolding compatible_def
proof (intro ballI impI)
  fix pe pe' x y
  assume "pe \<in> set es" "pe' \<in> set es" "pe \<noteq> pe'"
    "x \<in> set (entry_ops pe)" "y \<in> set (entry_ops pe')" "target x = target y"
  then show "kw_of x = kw_of y" by (rule r)
qed

lemma compatible_Cons:
  assumes "compatible (pe # es)"
  shows "compatible es"
proof (rule compatibleI)
  fix p p' x y
  assume a: "p \<in> set es" "p' \<in> set es" "p \<noteq> p'"
    "x \<in> set (entry_ops p)" "y \<in> set (entry_ops p')" "target x = target y"
  from a(1) have 1: "p \<in> set (pe # es)" by simp
  from a(2) have 2: "p' \<in> set (pe # es)" by simp
  from assms 1 2 a(3-6) show "kw_of x = kw_of y" by (rule compatibleD)
qed

lemma compatible_set:
  assumes "set es = set es'" and "compatible es"
  shows "compatible es'"
proof (rule compatibleI)
  fix p p' x y
  assume a: "p \<in> set es'" "p' \<in> set es'" "p \<noteq> p'"
    "x \<in> set (entry_ops p)" "y \<in> set (entry_ops p')" "target x = target y"
  from a(1) assms(1) have 1: "p \<in> set es" by simp
  from a(2) assms(1) have 2: "p' \<in> set es" by simp
  from assms(2) 1 2 a(3-6) show "kw_of x = kw_of y" by (rule compatibleD)
qed

lemma last_write_in:
  assumes "map_of (rev (map node_write ops)) n = Some a"
  shows "\<exists>x\<in>set ops. target x = n \<and> kw_of x = a"
proof -
  from assms have "(n, a) \<in> set (rev (map node_write ops))" by (rule map_of_SomeD)
  then have "(n, a) \<in> node_write ` set ops" by simp
  then obtain x where x: "x \<in> set ops" and "(n, a) = node_write x" by (rule imageE)
  then have "target x = n \<and> kw_of x = a" by (simp add: node_write_def)
  with x show ?thesis by (rule bexI [rotated])
qed

lemma node_map_by_file:
  assumes "compatible es"
  shows "map_of (rev (map node_write (all_ops es))) n = Some a
     \<longleftrightarrow> (\<exists>pe\<in>set es. map_of (rev (map node_write (entry_ops pe))) n = Some a)"
  using assms
proof (induction es arbitrary: a)
  case Nil
  then show ?case by (simp add: all_ops_def)
next
  case (Cons pe es)
  let ?m1 = "map_of (rev (map node_write (entry_ops pe)))"
  let ?m2 = "map_of (rev (map node_write (all_ops es)))"
  have split: "map_of (rev (map node_write (all_ops (pe # es)))) = ?m1 ++ ?m2"
    by (simp add: all_ops_Cons)
  have ih: "?m2 n = Some b \<longleftrightarrow> (\<exists>pe'\<in>set es. map_of (rev (map node_write (entry_ops pe'))) n = Some b)" for b
    using Cons.IH [OF compatible_Cons [OF Cons.prems]] .
  have agree: "b = a" if 1: "?m1 n = Some a" and 2: "?m2 n = Some b" for b
  proof -
    from 2 ih obtain pe' where pe': "pe' \<in> set es"
      and 3: "map_of (rev (map node_write (entry_ops pe'))) n = Some b"
      by blast
    show ?thesis
    proof (cases "pe' = pe")
      case True
      with 1 3 show ?thesis by simp
    next
      case False
      from last_write_in [OF 1] obtain x where x: "x \<in> set (entry_ops pe)" "target x = n" "kw_of x = a"
        by blast
      from last_write_in [OF 3] obtain y where y: "y \<in> set (entry_ops pe')" "target y = n" "kw_of y = b"
        by blast
      have "kw_of x = kw_of y"
      proof (rule compatibleD [OF Cons.prems])
        show "pe \<in> set (pe # es)" by simp
        show "pe' \<in> set (pe # es)" using pe' by simp
        show "pe \<noteq> pe'" using False by simp
        show "x \<in> set (entry_ops pe)" by (rule x(1))
        show "y \<in> set (entry_ops pe')" by (rule y(1))
        show "target x = target y" by (simp add: x(2) y(2))
      qed
      with x(3) y(3) show ?thesis by simp
    qed
  qed
  show ?case
  proof
    assume "map_of (rev (map node_write (all_ops (pe # es)))) n = Some a"
    then have L: "(?m1 ++ ?m2) n = Some a" by (simp only: split)
    show "\<exists>pe'\<in>set (pe # es). map_of (rev (map node_write (entry_ops pe'))) n = Some a"
    proof (cases "?m2 n")
      case None
      with L have "?m1 n = Some a" by (simp add: map_add_def)
      then show ?thesis by (rule bexI [of _ pe]) simp
    next
      case (Some b)
      with L have "?m2 n = Some a" by (simp add: map_add_def)
      then obtain pe' where "pe' \<in> set es"
        and "map_of (rev (map node_write (entry_ops pe'))) n = Some a"
        using ih [of a, THEN iffD1] by blast
      then show ?thesis by (intro bexI [of _ pe']) simp_all
    qed
  next
    assume "\<exists>pe'\<in>set (pe # es). map_of (rev (map node_write (entry_ops pe'))) n = Some a"
    then obtain pe' where in_set: "pe' = pe \<or> pe' \<in> set es"
      and R: "map_of (rev (map node_write (entry_ops pe'))) n = Some a"
      by (elim bexE) simp
    have "(?m1 ++ ?m2) n = Some a"
    proof (cases "pe' \<in> set es")
      case True
      with R have "?m2 n = Some a" using ih [of a, THEN iffD2] by blast
      then show ?thesis by (simp add: map_add_def)
    next
      case False
      with in_set R have 1: "?m1 n = Some a" by simp
      show ?thesis
      proof (cases "?m2 n")
        case None
        with 1 show ?thesis by (simp add: map_add_def)
      next
        case (Some b)
        with agree [OF 1] show ?thesis by (simp add: map_add_def)
      qed
    qed
    then show "map_of (rev (map node_write (all_ops (pe # es)))) n = Some a"
      by (simp only: split)
  qed
qed

lemma map_eq_by_Some:
  assumes "\<And>a. m1 n = Some a \<longleftrightarrow> m2 n = Some a"
  shows "m1 n = m2 n"
proof (cases "m1 n")
  case None
  show ?thesis
  proof (cases "m2 n")
    case None
    with \<open>m1 n = None\<close> show ?thesis by simp
  next
    case (Some b)
    with assms [of b] \<open>m1 n = None\<close> show ?thesis by simp
  qed
next
  case (Some a)
  with assms [of a] show ?thesis by simp
qed



lemma identifier_statements:
  assumes "identifiers es" and "(p, e) \<in> set es" and "parsed e = Some tree" and "s \<in> statements tree"
  shows "stmt_identifier s"
proof -
  from assms(1) have "\<forall>pe\<in>set es. case parsed (snd pe) of None \<Rightarrow> True
                   | Some tree \<Rightarrow> (\<forall>s\<in>statements tree. stmt_identifier s)"
    by (simp only: identifiers_def)
  then have "case parsed (snd (p, e)) of None \<Rightarrow> True
                   | Some tree \<Rightarrow> (\<forall>s\<in>statements tree. stmt_identifier s)"
    using assms(2) by (rule bspec)
  with assms(3) have "\<forall>s\<in>statements tree. stmt_identifier s" by simp
  then show ?thesis using assms(4) by (rule bspec)
qed

lemma flat_identifier_no_slash:
  "stmt_identifier s \<Longrightarrow> X \<in> flat_identifiers s \<Longrightarrow> CHR ''/'' \<notin> set X"
  by (induction s rule: flat_identifiers.induct) (auto split: if_splits)

lemma suffix_join: "suffix b (join a b)"
  by (simp add: join_def suffix_def)

lemma py_entries_py:
  assumes "(p, e) \<in> set (py_entries items)"
  shows "suffix ''.py'' p"
proof -
  from assms obtain root fname where "endswith fname ''.py''" and p: "p = join root fname"
    unfolding in_py_entries by blast
  then have "suffix ''.py'' fname" by (simp add: endswith_def)
  moreover have "suffix fname p" unfolding p by (rule suffix_join)
  ultimately show ?thesis by (rule suffix_order.trans)
qed

text \<open>A path that ends in \<^verbatim>\<open>.py\<close> is not the identity of a declaration.\<close>

lemma py_not_declaration:
  assumes "suffix ''.py'' (u @ ''::'' @ n)"
  shows "CHR ''.'' \<in> set n"
proof -
  from assms have pre: "prefix ''yp.'' (rev n @ ''::'' @ rev u)"
    by (simp add: suffix_to_prefix)
  have "CHR ''.'' \<in> set (rev n)"
  proof (cases "rev n")
    case Nil
    with pre show ?thesis by simp
  next
    case 1: (Cons a r1)
    show ?thesis
    proof (cases r1)
      case Nil
      with pre 1 show ?thesis by simp
    next
      case 2: (Cons b r2)
      show ?thesis
      proof (cases r2)
        case Nil
        with pre 1 2 show ?thesis by simp
      next
        case (Cons c r3)
        with pre 1 2 show ?thesis by simp
      qed
    qed
  qed
  then show ?thesis by simp
qed

text \<open>The three kinds of identities: a path, the name of a module, a declaration.\<close>

lemma op_shape:
  assumes x: "x \<in> set (file_ops p tree)"
    and ident: "\<And>s. s \<in> statements tree \<Longrightarrow> stmt_identifier s"
    and slash: "CHR ''/'' \<in> set p" and py: "suffix ''.py'' p"
  shows "(kw_of x = file_attrs \<and> CHR ''/'' \<in> set (target x) \<and> suffix ''.py'' (target x))
       \<or> (kw_of x = module_attrs \<and> CHR ''/'' \<notin> set (target x))
       \<or> (CHR ''/'' \<in> set (target x) \<and> \<not> suffix ''.py'' (target x)
            \<and> ((\<exists>n. CHR '':'' \<notin> set n \<and> target x = p @ ''::'' @ n)
              \<or> (\<exists>c n. CHR ''.'' \<notin> set c \<and> CHR '':'' \<notin> set n \<and> kw_of x = function_attrs
                     \<and> target x = (p @ ''::'' @ c) @ ''::'' @ n)))"
proof -
  have flat: "CHR ''/'' \<in> set (p @ ''::'' @ n) \<and> \<not> suffix ''.py'' (p @ ''::'' @ n)"
    if "CHR ''.'' \<notin> set n" for n
    using that slash py_not_declaration [of p n] by auto
  have meth: "CHR ''/'' \<in> set ((p @ ''::'' @ c) @ ''::'' @ n)
              \<and> \<not> suffix ''.py'' ((p @ ''::'' @ c) @ ''::'' @ n)"
    if "CHR ''.'' \<notin> set n" for c n
    using that slash py_not_declaration [of "p @ ''::'' @ c" n] by auto
  from x consider
      (ofile) "x = FileOp p"
    | (ofunc) m bd t where "FunctionDef m bd t \<in> statements tree" "x = FuncOp p (p @ ''::'' @ m) t"
    | (ocls) c cb ct where "ClassDef c cb ct \<in> statements tree" "x = ClassOp p (p @ ''::'' @ c) ct"
    | (ometh) c cb ct m bd t where "ClassDef c cb ct \<in> statements tree" "FunctionDef m bd t \<in> set cb"
        "x = FuncOp (p @ ''::'' @ c) (p @ ''::'' @ c @ ''::'' @ m) t"
    | (omod) X where "X \<in> fst ` set (imports_of tree)" "x = ModuleOp p X"
    unfolding in_file_ops by blast
  then show ?thesis
  proof cases
    case ofile
    with slash py show ?thesis by simp
  next
    case ofunc
    from ident [OF ofunc(1)] have m: "CHR ''.'' \<notin> set m" "CHR '':'' \<notin> set m" by simp_all
    from flat [OF m(1)] m(2) have "CHR ''/'' \<in> set (target x) \<and> \<not> suffix ''.py'' (target x)
        \<and> (\<exists>n. CHR '':'' \<notin> set n \<and> target x = p @ ''::'' @ n)"
      unfolding ofunc(2) target.simps by blast
    then show ?thesis by blast
  next
    case ocls
    from ident [OF ocls(1)] have c: "CHR ''.'' \<notin> set c" "CHR '':'' \<notin> set c" by simp_all
    from flat [OF c(1)] c(2) have "CHR ''/'' \<in> set (target x) \<and> \<not> suffix ''.py'' (target x)
        \<and> (\<exists>n. CHR '':'' \<notin> set n \<and> target x = p @ ''::'' @ n)"
      unfolding ocls(2) target.simps by blast
    then show ?thesis by blast
  next
    case ometh
    from ident [OF ometh(1)] have c: "CHR ''.'' \<notin> set c" by simp
    from ometh(1,2) have "FunctionDef m bd t \<in> statements tree" by (rule child_in_statements)
    from ident [OF this] have m: "CHR ''.'' \<notin> set m" "CHR '':'' \<notin> set m" by simp_all
    have t: "target x = (p @ ''::'' @ c) @ ''::'' @ m" and k: "kw_of x = function_attrs"
      unfolding ometh(3) by simp_all
    from meth [OF m(1), of c] have "CHR ''/'' \<in> set (target x) \<and> \<not> suffix ''.py'' (target x)"
      unfolding t .
    moreover from c m(2) k t
    have "\<exists>c n. CHR ''.'' \<notin> set c \<and> CHR '':'' \<notin> set n \<and> kw_of x = function_attrs
                     \<and> target x = (p @ ''::'' @ c) @ ''::'' @ n"
      by blast
    ultimately show ?thesis by blast
  next
    case omod
    from omod(1) obtain s where s: "s \<in> statements tree" and X: "X \<in> flat_identifiers s"
      unfolding keys_imports_of by blast
    from ident [OF s] X have "CHR ''/'' \<notin> set X" by (rule flat_identifier_no_slash)
    with omod(2) show ?thesis by simp
  qed
qed



text \<open>Two different files never give one identity two different kinds.\<close>

lemma compatible_if_identifiers:
  assumes slash: "\<And>p e. (p, e) \<in> set es \<Longrightarrow> CHR ''/'' \<in> set p"
    and py: "\<And>p e. (p, e) \<in> set es \<Longrightarrow> suffix ''.py'' p"
    and dist: "distinct (map fst es)"
    and ident: "identifiers es"
  shows "compatible es"
proof (rule compatibleI)
  fix pe pe' x y
  assume pe: "pe \<in> set es" and pe': "pe' \<in> set es" and ne: "pe \<noteq> pe'"
    and x: "x \<in> set (entry_ops pe)" and y: "y \<in> set (entry_ops pe')"
    and t: "target x = target y"
  obtain p e where pe_eq: "pe = (p, e)" by (cases pe)
  obtain q e' where pe'_eq: "pe' = (q, e')" by (cases pe')
  from pe pe_eq have in1: "(p, e) \<in> set es" by simp
  from pe' pe'_eq have in2: "(q, e') \<in> set es" by simp
  from x obtain tree where tree: "parsed e = Some tree" and fx: "x \<in> set (file_ops p tree)"
    unfolding pe_eq in_entry_ops by blast
  from y obtain tree' where tree': "parsed e' = Some tree'" and fy: "y \<in> set (file_ops q tree')"
    unfolding pe'_eq in_entry_ops by blast
  have pq: "p \<noteq> q"
  proof
    assume "p = q"
    with in2 have "(p, e') \<in> set es" by simp
    with dist in1 have "e = e'" by (rule eq_key_imp_eq_value)
    with \<open>p = q\<close> ne pe_eq pe'_eq show False by simp
  qed
  note sx = op_shape [OF fx identifier_statements [OF ident in1 tree] slash [OF in1] py [OF in1]]
  note sy = op_shape [OF fy identifier_statements [OF ident in2 tree'] slash [OF in2] py [OF in2]]
  from sx consider
      (xfile) "kw_of x = file_attrs" "CHR ''/'' \<in> set (target x)" "suffix ''.py'' (target x)"
    | (xmod) "kw_of x = module_attrs" "CHR ''/'' \<notin> set (target x)"
    | (xflat) n where "CHR ''/'' \<in> set (target x)" "\<not> suffix ''.py'' (target x)"
        "CHR '':'' \<notin> set n" "target x = p @ ''::'' @ n"
    | (xmeth) c n where "CHR ''/'' \<in> set (target x)" "\<not> suffix ''.py'' (target x)"
        "CHR ''.'' \<notin> set c" "CHR '':'' \<notin> set n" "kw_of x = function_attrs"
        "target x = (p @ ''::'' @ c) @ ''::'' @ n"
    by blast
  then show "kw_of x = kw_of y"
  proof cases
    case xfile
    from sy xfile t show ?thesis by auto
  next
    case xmod
    from sy xmod t show ?thesis by auto
  next
    case xflat
    from sy consider
        (yother) "CHR ''/'' \<notin> set (target y) \<or> suffix ''.py'' (target y)"
      | (yflat) n' where "CHR '':'' \<notin> set n'" "target y = q @ ''::'' @ n'"
      | (ymeth) c' n' where "CHR ''.'' \<notin> set c'" "CHR '':'' \<notin> set n'"
          "target y = (q @ ''::'' @ c') @ ''::'' @ n'"
      by blast
    then show ?thesis
    proof cases
      case yother
      with xflat(1,2) t show ?thesis by simp
    next
      case yflat
      from xflat(4) yflat(2) t have "p @ ''::'' @ n = q @ ''::'' @ n'" by simp
      from this xflat(3) yflat(1) have "p = q" by (rule separator_unique)
      with pq show ?thesis by simp
    next
      case ymeth
      from xflat(4) ymeth(3) t have "p @ ''::'' @ n = (q @ ''::'' @ c') @ ''::'' @ n'" by simp
      from this xflat(3) ymeth(2) have "p = q @ ''::'' @ c'" by (rule separator_unique)
      with py [OF in1] have "suffix ''.py'' (q @ ''::'' @ c')" by simp
      then have "CHR ''.'' \<in> set c'" by (rule py_not_declaration)
      with ymeth(1) show ?thesis by simp
    qed
  next
    case xmeth
    from sy consider
        (yother) "CHR ''/'' \<notin> set (target y) \<or> suffix ''.py'' (target y)"
      | (yflat) n' where "CHR '':'' \<notin> set n'" "target y = q @ ''::'' @ n'"
      | (ymeth) "kw_of y = function_attrs"
      by blast
    then show ?thesis
    proof cases
      case yother
      with xmeth(1,2) t show ?thesis by simp
    next
      case yflat
      from xmeth(6) yflat(2) t have "q @ ''::'' @ n' = (p @ ''::'' @ c) @ ''::'' @ n" by simp
      from this yflat(1) xmeth(4) have "q = p @ ''::'' @ c" by (rule separator_unique)
      with py [OF in2] have "suffix ''.py'' (p @ ''::'' @ c)" by simp
      then have "CHR ''.'' \<in> set c" by (rule py_not_declaration)
      with xmeth(3) show ?thesis by simp
    next
      case ymeth
      with xmeth(5) show ?thesis by simp
    qed
  qed
qed

lemma set_all_ops: "set (all_ops es) = (\<Union>pe\<in>set es. set (entry_ops pe))"
  by (simp add: all_ops_def)

text \<open>
  Claim C7. The graph does not depend on the order in which the files are met.
  Let two listings of a directory give the same set of Python files, each path
  once and with the same content, the names of functions and classes
  being identifiers and the names of modules dotted names. If the builder returns a
  graph for the first listing, it returns a graph for the second, with the same
  nodes, each with the same attributes \<^verbatim>\<open>type\<close> and \<^verbatim>\<open>color\<close>, and the same edges;
  only the order of insertion may differ.
\<close>

theorem file_order_irrelevant:
  assumes d: "directory \<noteq> []"
    and dist: "distinct (map fst (py_entries (os_walk_root directory root_entry)))"
    and ident: "identifiers (py_entries (os_walk_root directory root_entry))"
    and same: "set (py_entries (os_walk_root directory root_entry'))
                 = set (py_entries (os_walk_root directory root_entry))"
    and b: "build_import_graph directory root_entry = Inr (g, fnodes, codes)"
  shows "\<exists>g' fnodes' codes'.
           build_import_graph directory root_entry' = Inr (g', fnodes', codes')
           \<and> set (nodes g') = set (nodes g) \<and> set (edges g') = set (edges g)"
proof -
  let ?es = "py_entries (os_walk_root directory root_entry)"
  let ?es' = "py_entries (os_walk_root directory root_entry')"
  let ?w = "\<lambda>es. map_of (rev (map node_write (all_ops es)))"
  have comp: "compatible ?es"
  proof (rule compatible_if_identifiers)
    fix p e
    assume in1: "(p, e) \<in> set ?es"
    from d in1 show "CHR ''/'' \<in> set p" by (rule py_entries_slash)
    from in1 show "suffix ''.py'' p" by (rule py_entries_py)
  qed (rule dist, rule ident)
  from same [symmetric] comp have comp': "compatible ?es'" by (rule compatible_set)
  from b have "first_error ?es = None" by (rule build_import_graph_Inr(1))
  then have "\<forall>pe\<in>set ?es. parsed (snd pe) \<noteq> None" by (simp only: first_error_None)
  with same have "\<forall>pe\<in>set ?es'. parsed (snd pe) \<noteq> None" by simp
  then have "first_error ?es' = None" by (simp only: first_error_None)
  then obtain g' fnodes' codes'
    where b': "build_import_graph directory root_entry' = Inr (g', fnodes', codes')"
    using build_import_graph_total by blast
  have "?w ?es' n = ?w ?es n" for n
  proof (rule map_eq_by_Some)
    fix a
    show "?w ?es' n = Some a \<longleftrightarrow> ?w ?es n = Some a"
      unfolding node_map_by_file [OF comp'] node_map_by_file [OF comp] same ..
  qed
  then have "?w ?es' = ?w ?es" by (rule ext)
  then have m: "map_of (nodes g') = map_of (nodes g)"
    unfolding build_nodes_edges(3) [OF b'] build_nodes_edges(3) [OF b] .
  have "set (nodes g') = set (nodes g)"
    using build_nodes_edges(2) [OF b'] build_nodes_edges(2) [OF b] m
    by (simp only: map_of_inject_set)
  moreover have "set (edges g') = set (edges g)"
    unfolding build_nodes_edges(4) [OF b'] build_nodes_edges(4) [OF b] set_all_ops same ..
  ultimately show ?thesis using b' by blast
qed

lemma reordered_entries:
  "py_entries (os_walk_root ''d'' scenario_reordered) =
     [(''d/c.py'', File (Some (Source (Module [Simple])))),
      (''d/b.py'', File (Some (Source (Module [ImportFrom (Some ''a'') [''foo'']])))),
      (''d/a.py'', File (Some (Source (Module
         [FunctionDef ''foo'' [Simple] ''def foo(): pass'', Import [''os'']]))))]"
  by code_simp

theorem file_order_irrelevant_witness:
  "build_import_graph ''d'' scenario
      = Inr (scenario_graph, scenario_files, [(''d/a.py::foo'', ''def foo(): pass'')])
   \<and> build_import_graph ''d'' scenario_reordered \<noteq> build_import_graph ''d'' scenario
   \<and> (\<exists>g' fnodes' codes'.
         build_import_graph ''d'' scenario_reordered = Inr (g', fnodes', codes')
         \<and> set (nodes g') = set (nodes scenario_graph)
         \<and> set (edges g') = set (edges scenario_graph))"
proof -
  have d: "''d'' \<noteq> []" by simp
  have dist: "distinct (map fst (py_entries (os_walk_root ''d'' scenario)))"
    unfolding scenario_entries by simp
  have ident: "identifiers (py_entries (os_walk_root ''d'' scenario))"
    by code_simp
  have same: "set (py_entries (os_walk_root ''d'' scenario_reordered))
                = set (py_entries (os_walk_root ''d'' scenario))"
    unfolding scenario_entries reordered_entries by (simp add: insert_commute)
  have ne: "build_import_graph ''d'' scenario_reordered \<noteq> build_import_graph ''d'' scenario"
    by code_simp
  from scenario_build ne file_order_irrelevant [OF d dist ident same scenario_build]
  show ?thesis by (intro conjI)
qed

end
